theory Spec2Isabelle
  imports Main
begin

section \<open>Data model\<close>

text \<open>
  The store keeps four SQL tables. A row is the tuple of its columns, in the order in which
  the statements of the source name them; a table is the list of its rows in insertion
  order. Serialised JSON (the result of \<open>ujson.dumps\<close>) is a \<open>string\<close>; the messages
  themselves are of an arbitrary type \<open>'m\<close>, and \<open>ujson.dumps\<close> and \<open>ujson.loads\<close>
  are parameters \<open>dumps\<close> and \<open>loads\<close> of the operations that call them.
\<close>

type_synonym devices_row = "string \<times> string"
  \<comment> \<open>\<open>(user_id, device_id)\<close>\<close>
type_synonym device_inbox_row = "string \<times> string \<times> int \<times> string"
  \<comment> \<open>\<open>(user_id, device_id, stream_id, message_json)\<close>\<close>
type_synonym device_federation_outbox_row = "string \<times> int \<times> int \<times> string"
  \<comment> \<open>\<open>(destination, stream_id, queued_ts, messages_json)\<close>\<close>
type_synonym device_federation_inbox_row = "string \<times> string \<times> int"
  \<comment> \<open>\<open>(origin, message_id, received_ts)\<close>\<close>

record database =
  devices :: "devices_row list"
  device_inbox :: "device_inbox_row list"
  device_federation_outbox :: "device_federation_outbox_row list"
  device_federation_inbox :: "device_federation_inbox_row list"

text \<open>
  The attributes of \<open>DeviceInboxStore\<close> that the operations use: the database, the
  stream id generator (its counter) and the two stream change caches.
\<close>

record store =
  db :: database
  device_inbox_id_gen :: int
  device_inbox_stream_cache :: "string \<rightharpoonup> int"
  device_federation_outbox_stream_cache :: "string \<rightharpoonup> int"

datatype error =
  UnboundLocalError  \<comment> \<open>Python: a local variable read before any assignment\<close>
| StorageError       \<comment> \<open>the transaction failed to commit\<close>

text \<open>A Python dict is the list of its items, in iteration order.\<close>

type_synonym 'm messages_by_device = "(string \<times> 'm) list"
type_synonym 'm messages_by_user_then_device = "(string \<times> 'm messages_by_device) list"

definition keys :: "('k \<times> 'v) list \<Rightarrow> 'k list" where
  "keys d = map fst d"

definition is_dict :: "('k \<times> 'v) list \<Rightarrow> bool" where
  "is_dict d = distinct (keys d)"

section \<open>Collaborators outside the file\<close>

text \<open>
  Modelled from the spec: the stream id generator \<open>_device_inbox_id_gen\<close> (class
  \<open>StreamIdGenerator\<close>, not in the sources). The spec: it "issues strictly increasing
  positions; supports reserving one position inside a scoped transaction boundary and
  exposes the latest committed position". The state is the last position issued;
  \<open>get_next\<close> returns the reserved position and the new state. With one operation
  running at a time every issued position is committed or abandoned when its scope ends,
  so the current token is the last position issued.
\<close>

definition get_next :: "int \<Rightarrow> int \<times> int" where
  "get_next current = (current + 1, current + 1)"

definition get_current_token :: "int \<Rightarrow> int" where
  "get_current_token current = current"

text \<open>
  Modelled from the spec: the stream change cache (class \<open>StreamChangeCache\<close>, not in
  the sources). The spec: "keyed by (kind, entity-id) \<rightarrow> highest stream position at which
  that entity was touched", with \<open>mark_changed(entity_key, position)\<close> and
  \<open>has_changed_since(entity_key, position)\<close>.
\<close>

definition entity_has_changed :: "(string \<rightharpoonup> int) \<Rightarrow> string \<Rightarrow> int \<Rightarrow> (string \<rightharpoonup> int)" where
  "entity_has_changed cache entity stream_pos =
     cache(entity \<mapsto> (case cache entity of None \<Rightarrow> stream_pos | Some old_pos \<Rightarrow> max stream_pos old_pos))"

definition has_entity_changed :: "(string \<rightharpoonup> int) \<Rightarrow> string \<Rightarrow> int \<Rightarrow> bool" where
  "has_entity_changed cache entity stream_pos =
     (case cache entity of None \<Rightarrow> False | Some latest \<Rightarrow> stream_pos < latest)"

text \<open>
  Modelled from the spec: \<open>runInteraction\<close> (class \<open>SQLBaseStore\<close>, not in the sources).
  The spec: "\<open>run_in_transaction(fn) \<rightarrow> result\<close>, guaranteeing atomic commit/rollback of
  all writes performed inside \<open>fn\<close>". A transaction function maps the database to an
  error or to its result and the database it leaves. The parameter \<open>fault\<close> is the
  storage engine's part: with \<open>Some e\<close> the transaction fails to commit and \<open>e\<close> is
  raised. An error, of the engine or of the function, leaves the database as it was.
\<close>

type_synonym 'a txn = "database \<Rightarrow> error + ('a \<times> database)"

definition runInteraction :: "error option \<Rightarrow> 'a txn \<Rightarrow> database \<Rightarrow> (error + 'a) \<times> database" where
  "runInteraction fault func d =
     (case func d of
        Inl e \<Rightarrow> (Inl e, d)
      | Inr (r, d') \<Rightarrow> (case fault of Some e \<Rightarrow> (Inl e, d) | None \<Rightarrow> (Inr r, d')))"

section \<open>Cursor reads\<close>

text \<open>
  The query of \<open>get_new_messages_for_device_txn\<close>:
  \<^verbatim>\<open>SELECT stream_id, message_json FROM device_inbox WHERE user_id = ? AND device_id = ?
  AND ? < stream_id AND stream_id <= ? ORDER BY stream_id ASC LIMIT ?\<close>.
  \<open>ORDER BY\<close> is the stable sort of the rows in insertion order. \<open>limit\<close> is a natural
  number: what a negative \<open>LIMIT\<close> does depends on the engine.
\<close>

definition select_device_inbox ::
  "device_inbox_row list \<Rightarrow> string \<Rightarrow> string \<Rightarrow> int \<Rightarrow> int \<Rightarrow> nat \<Rightarrow> (int \<times> string) list" where
  "select_device_inbox tbl user_id device_id last_stream_id current_stream_id limit =
     take limit (sort_key fst
       (map (\<lambda>(u, d, stream_id, message_json). (stream_id, message_json))
         (filter (\<lambda>(u, d, stream_id, message_json).
            u = user_id \<and> d = device_id \<and> last_stream_id < stream_id \<and> stream_id \<le> current_stream_id)
          tbl)))"

text \<open>
  The loop over the fetched rows, shared by both cursor reads: \<open>stream_pos\<close> is unbound
  (\<open>None\<close>) until the first row assigns it.
\<close>

definition fetch_loop :: "(string \<Rightarrow> 'm) \<Rightarrow> (int \<times> string) list \<Rightarrow> int option \<times> 'm list" where
  "fetch_loop loads rows =
     fold (\<lambda>row (stream_pos, messages). (Some (fst row), messages @ [loads (snd row)])) rows (None, [])"

definition cursor_result :: "(string \<Rightarrow> 'm) \<Rightarrow> (int \<times> string) list \<Rightarrow> int \<Rightarrow> nat \<Rightarrow> error + ('m list \<times> int)" where
  "cursor_result loads rows current_stream_id limit =
     (let (stream_pos, messages) = fetch_loop loads rows in
      if length messages < limit then Inr (messages, current_stream_id)
      else (case stream_pos of
              None \<Rightarrow> Inl UnboundLocalError
            | Some p \<Rightarrow> Inr (messages, p)))"

definition get_new_messages_for_device_txn ::
  "(string \<Rightarrow> 'm) \<Rightarrow> string \<Rightarrow> string \<Rightarrow> int \<Rightarrow> int \<Rightarrow> nat \<Rightarrow> ('m list \<times> int) txn" where
  "get_new_messages_for_device_txn loads user_id device_id last_stream_id current_stream_id limit txn =
     (let rows = select_device_inbox (device_inbox txn) user_id device_id last_stream_id current_stream_id limit
      in map_sum id (\<lambda>r. (r, txn)) (cursor_result loads rows current_stream_id limit))"

definition get_new_messages_for_device ::
  "(string \<Rightarrow> 'm) \<Rightarrow> error option \<Rightarrow> store \<Rightarrow> string \<Rightarrow> string \<Rightarrow> int \<Rightarrow> int \<Rightarrow> nat \<Rightarrow> error + ('m list \<times> int)" where
  "get_new_messages_for_device loads fault self user_id device_id last_stream_id current_stream_id limit =
     (if \<not> has_entity_changed (device_inbox_stream_cache self) user_id last_stream_id
      then Inr ([], current_stream_id)
      else fst (runInteraction fault
             (get_new_messages_for_device_txn loads user_id device_id last_stream_id current_stream_id limit)
             (db self)))"

text \<open>
  The query of \<open>get_new_messages_for_remote_destination_txn\<close>:
  \<^verbatim>\<open>SELECT stream_id, messages_json FROM device_federation_outbox WHERE destination = ?
  AND ? < stream_id AND stream_id <= ? ORDER BY stream_id ASC LIMIT ?\<close>.
\<close>

definition select_device_federation_outbox ::
  "device_federation_outbox_row list \<Rightarrow> string \<Rightarrow> int \<Rightarrow> int \<Rightarrow> nat \<Rightarrow> (int \<times> string) list" where
  "select_device_federation_outbox tbl destination last_stream_id current_stream_id limit =
     take limit (sort_key fst
       (map (\<lambda>(dest, stream_id, queued_ts, messages_json). (stream_id, messages_json))
         (filter (\<lambda>(dest, stream_id, queued_ts, messages_json).
            dest = destination \<and> last_stream_id < stream_id \<and> stream_id \<le> current_stream_id)
          tbl)))"

definition get_new_messages_for_remote_destination_txn ::
  "(string \<Rightarrow> 'm) \<Rightarrow> string \<Rightarrow> int \<Rightarrow> int \<Rightarrow> nat \<Rightarrow> ('m list \<times> int) txn" where
  "get_new_messages_for_remote_destination_txn loads destination last_stream_id current_stream_id limit txn =
     (let rows = select_device_federation_outbox (device_federation_outbox txn) destination
                   last_stream_id current_stream_id limit
      in map_sum id (\<lambda>r. (r, txn)) (cursor_result loads rows current_stream_id limit))"

definition get_new_device_msgs_for_remote ::
  "(string \<Rightarrow> 'm) \<Rightarrow> error option \<Rightarrow> store \<Rightarrow> string \<Rightarrow> int \<Rightarrow> int \<Rightarrow> nat \<Rightarrow> error + ('m list \<times> int)" where
  "get_new_device_msgs_for_remote loads fault self destination last_stream_id current_stream_id limit =
     (if \<not> has_entity_changed (device_federation_outbox_stream_cache self) destination last_stream_id
      then Inr ([], current_stream_id)
      else fst (runInteraction fault
             (get_new_messages_for_remote_destination_txn loads destination last_stream_id current_stream_id limit)
             (db self)))"

subsection \<open>A caller that pages through a device's inbox\<close>

text \<open>
  The sequence of reads of a caller that resumes each read from the position the read
  before returned: \<open>read_pages n read last\<close> makes \<open>n\<close> reads, the first from
  \<open>last\<close>, and returns the concatenation of the pages and the position of the last
  read. An error of a read ends the sequence with that error.
\<close>

fun read_pages :: "nat \<Rightarrow> (int \<Rightarrow> error + ('m list \<times> int)) \<Rightarrow> int \<Rightarrow> error + ('m list \<times> int)" where
  "read_pages 0 read last_stream_id = Inr ([], last_stream_id)"
| "read_pages (Suc n) read last_stream_id =
     (case read last_stream_id of
        Inl e \<Rightarrow> Inl e
      | Inr (messages, new_last) \<Rightarrow>
          (case read_pages n read new_last of
             Inl e \<Rightarrow> Inl e
           | Inr (rest, final) \<Rightarrow> Inr (messages @ rest, final)))"

text \<open>
  What the claims about reads compare with: the rows stored for a device with stream
  position in \<open>(lo, hi]\<close>, in ascending order of position, and their payloads; and
  all the rows stored for a device, in ascending order of position.
\<close>

definition stored_rows :: "device_inbox_row list \<Rightarrow> string \<Rightarrow> string \<Rightarrow> int \<Rightarrow> int \<Rightarrow> (int \<times> string) list" where
  "stored_rows tbl user_id device_id lo hi =
     sort_key fst
       (map (\<lambda>(u, d, stream_id, message_json). (stream_id, message_json))
         (filter (\<lambda>(u, d, stream_id, message_json).
            u = user_id \<and> d = device_id \<and> lo < stream_id \<and> stream_id \<le> hi)
          tbl))"

definition device_rows :: "device_inbox_row list \<Rightarrow> string \<Rightarrow> string \<Rightarrow> (int \<times> string) list" where
  "device_rows tbl user_id device_id =
     sort_key fst
       (map (\<lambda>(u, d, stream_id, message_json). (stream_id, message_json))
         (filter (\<lambda>(u, d, stream_id, message_json). u = user_id \<and> d = device_id) tbl))"

definition stored_payloads :: "(string \<Rightarrow> 'm) \<Rightarrow> device_inbox_row list \<Rightarrow> string \<Rightarrow> string \<Rightarrow> int \<Rightarrow> int \<Rightarrow> 'm list" where
  "stored_payloads loads tbl user_id device_id lo hi =
     map (\<lambda>row. loads (snd row)) (stored_rows tbl user_id device_id lo hi)"

section \<open>The replication read\<close>

text \<open>
  The first query of \<open>get_all_new_device_messages_txn\<close>:
  \<^verbatim>\<open>SELECT stream_id FROM device_inbox WHERE ? < stream_id AND stream_id <= ?
  GROUP BY stream_id ORDER BY stream_id ASC LIMIT ?\<close>. A fetched row is its one column:
  the source passes the row \<open>stream_ids[-1]\<close> itself as the bound of the second query,
  and the bound is read as the position in that row (what a database driver makes of a
  row as a parameter is outside the source).
\<close>

definition select_stream_ids :: "device_inbox_row list \<Rightarrow> int \<Rightarrow> int \<Rightarrow> nat \<Rightarrow> int list" where
  "select_stream_ids tbl last_pos current_pos limit =
     take limit (sort (remdups
       (map (\<lambda>(u, d, stream_id, message_json). stream_id)
         (filter (\<lambda>(u, d, stream_id, message_json). last_pos < stream_id \<and> stream_id \<le> current_pos)
          tbl))))"

text \<open>
  The second query:
  \<^verbatim>\<open>SELECT stream_id, user_id, device_id, message_json FROM device_inbox
  WHERE ? < stream_id AND stream_id <= ? ORDER BY stream_id ASC\<close>.
\<close>

definition select_device_inbox_up_to ::
  "device_inbox_row list \<Rightarrow> int \<Rightarrow> int \<Rightarrow> (int \<times> string \<times> string \<times> string) list" where
  "select_device_inbox_up_to tbl last_pos max_stream_id =
     sort_key fst
       (map (\<lambda>(u, d, stream_id, message_json). (stream_id, u, d, message_json))
         (filter (\<lambda>(u, d, stream_id, message_json). last_pos < stream_id \<and> stream_id \<le> max_stream_id)
          tbl))"

definition get_all_new_device_messages_txn ::
  "int \<Rightarrow> int \<Rightarrow> nat \<Rightarrow> ((int \<times> string \<times> string \<times> string) list) txn" where
  "get_all_new_device_messages_txn last_pos current_pos limit txn =
     (let stream_ids = select_stream_ids (device_inbox txn) last_pos current_pos limit in
      if stream_ids = [] then Inr ([], txn)
      else (let max_stream_id_in_limit = last stream_ids
            in Inr (select_device_inbox_up_to (device_inbox txn) last_pos max_stream_id_in_limit, txn)))"

definition get_all_new_device_messages ::
  "error option \<Rightarrow> store \<Rightarrow> int \<Rightarrow> int \<Rightarrow> nat \<Rightarrow> error + (int \<times> string \<times> string \<times> string) list" where
  "get_all_new_device_messages fault self last_pos current_pos limit =
     (if last_pos = current_pos then Inr []
      else fst (runInteraction fault (get_all_new_device_messages_txn last_pos current_pos limit) (db self)))"

section \<open>Writes\<close>

text \<open>
  The query of \<open>_add_messages_to_local_device_inbox_txn\<close>:
  \<^verbatim>\<open>SELECT user_id, device_id FROM devices WHERE user_id = ? AND device_id IN (...)\<close>.
  For a user with no device in the input the list is empty and the query selects nothing;
  an engine that refuses an empty list fails the transaction, which is the \<open>fault\<close> of
  \<open>runInteraction\<close>.
\<close>

definition select_devices :: "devices_row list \<Rightarrow> string \<Rightarrow> string list \<Rightarrow> devices_row list" where
  "select_devices tbl user_id device_ids =
     filter (\<lambda>(u, d). u = user_id \<and> d \<in> set device_ids) tbl"

definition add_messages_to_local_device_inbox_txn ::
  "('m \<Rightarrow> string) \<Rightarrow> database \<Rightarrow> int \<Rightarrow> 'm messages_by_user_then_device \<Rightarrow> database" where
  "add_messages_to_local_device_inbox_txn dumps txn stream_id messages_by_user_then_device =
     (let local_users_and_devices =
            fold (\<lambda>(user_id, messages_by_device) acc.
                    acc \<union> set (select_devices (devices txn) user_id (keys messages_by_device)))
              messages_by_user_then_device {};
          rows =
            concat (map (\<lambda>(user_id, messages_by_device).
              concat (map (\<lambda>(device_id, message).
                if (user_id, device_id) \<in> local_users_and_devices
                then [(user_id, device_id, stream_id, dumps message)] else [])
                messages_by_device))
              messages_by_user_then_device)
      in txn\<lparr>device_inbox := device_inbox txn @ rows\<rparr>)"

text \<open>The transaction of \<open>add_messages_to_device_inbox\<close>.\<close>

definition add_messages_txn ::
  "('m \<Rightarrow> string) \<Rightarrow> 'm messages_by_user_then_device \<Rightarrow> (string \<times> 'm) list \<Rightarrow> int \<Rightarrow> int \<Rightarrow> unit txn" where
  "add_messages_txn dumps local_messages_by_user_then_device remote_messages_by_destination
       now_ms stream_id txn =
     (let txn1 = add_messages_to_local_device_inbox_txn dumps txn stream_id
                   local_messages_by_user_then_device;
          rows = map (\<lambda>(destination, edu). (destination, stream_id, now_ms, dumps edu))
                   remote_messages_by_destination
      in Inr ((), txn1\<lparr>device_federation_outbox := device_federation_outbox txn1 @ rows\<rparr>))"

text \<open>
  \<open>add_messages_to_device_inbox\<close>, with the clock's \<open>time_msec()\<close> as the parameter
  \<open>now_ms\<close>. The result is the raised error or the returned token, and the store that
  the call leaves.
\<close>

definition mark_all :: "(string \<rightharpoonup> int) \<Rightarrow> string list \<Rightarrow> int \<Rightarrow> (string \<rightharpoonup> int)" where
  "mark_all cache entities stream_id =
     fold (\<lambda>entity c. entity_has_changed c entity stream_id) entities cache"

definition add_messages_to_device_inbox ::
  "('m \<Rightarrow> string) \<Rightarrow> error option \<Rightarrow> int \<Rightarrow> store \<Rightarrow>
   'm messages_by_user_then_device \<Rightarrow> (string \<times> 'm) list \<Rightarrow> (error + int) \<times> store" where
  "add_messages_to_device_inbox dumps fault now_ms self
       local_messages_by_user_then_device remote_messages_by_destination =
     (let (stream_id, gen) = get_next (device_inbox_id_gen self);
          self1 = self\<lparr>device_inbox_id_gen := gen\<rparr>;
          (res, d) = runInteraction fault
                       (add_messages_txn dumps local_messages_by_user_then_device
                          remote_messages_by_destination now_ms stream_id)
                       (db self1);
          self2 = self1\<lparr>db := d\<rparr>
      in case res of
           Inl e \<Rightarrow> (Inl e, self2)
         | Inr u \<Rightarrow>
             (let self3 = self2\<lparr>device_inbox_stream_cache :=
                            mark_all (device_inbox_stream_cache self2)
                              (keys local_messages_by_user_then_device) stream_id\<rparr>;
                  self4 = self3\<lparr>device_federation_outbox_stream_cache :=
                            mark_all (device_federation_outbox_stream_cache self3)
                              (keys remote_messages_by_destination) stream_id\<rparr>
              in (Inr (get_current_token (device_inbox_id_gen self4)), self4)))"

text \<open>
  Modelled from the spec: \<open>_simple_select_one_txn\<close> and \<open>_simple_insert_txn\<close> (class
  \<open>SQLBaseStore\<close>, not in the sources), as \<open>add_messages_from_remote_to_device_inbox\<close>
  calls them on the table \<open>device_federation_inbox\<close>. The spec: "check whether a
  FederationInboxRecord with this exact (origin, message_id) already exists" and
  "insert the FederationInboxRecord". The select returns the column \<open>message_id\<close> of
  the matching row, or \<open>None\<close>.
\<close>

definition simple_select_one_txn :: "database \<Rightarrow> string \<Rightarrow> string \<Rightarrow> string option" where
  "simple_select_one_txn txn origin message_id =
     (case filter (\<lambda>(orig, mid, received_ts). orig = origin \<and> mid = message_id)
             (device_federation_inbox txn) of
        [] \<Rightarrow> None
      | (orig, mid, received_ts) # _ \<Rightarrow> Some mid)"

definition simple_insert_txn :: "database \<Rightarrow> device_federation_inbox_row \<Rightarrow> database" where
  "simple_insert_txn txn values = txn\<lparr>device_federation_inbox := device_federation_inbox txn @ [values]\<rparr>"

text \<open>The transaction of \<open>add_messages_from_remote_to_device_inbox\<close>.\<close>

definition add_messages_from_remote_txn ::
  "('m \<Rightarrow> string) \<Rightarrow> string \<Rightarrow> string \<Rightarrow> 'm messages_by_user_then_device \<Rightarrow> int \<Rightarrow> int \<Rightarrow> unit txn" where
  "add_messages_from_remote_txn dumps origin message_id local_messages_by_user_then_device
       now_ms stream_id txn =
     (let already_inserted = simple_select_one_txn txn origin message_id in
      if already_inserted \<noteq> None then Inr ((), txn)
      else (let txn1 = simple_insert_txn txn (origin, message_id, now_ms)
            in Inr ((), add_messages_to_local_device_inbox_txn dumps txn1 stream_id
                          local_messages_by_user_then_device)))"

definition add_messages_from_remote_to_device_inbox ::
  "('m \<Rightarrow> string) \<Rightarrow> error option \<Rightarrow> int \<Rightarrow> store \<Rightarrow> string \<Rightarrow> string \<Rightarrow>
   'm messages_by_user_then_device \<Rightarrow> (error + unit) \<times> store" where
  "add_messages_from_remote_to_device_inbox dumps fault now_ms self origin message_id
       local_messages_by_user_then_device =
     (let (stream_id, gen) = get_next (device_inbox_id_gen self);
          self1 = self\<lparr>device_inbox_id_gen := gen\<rparr>;
          (res, d) = runInteraction fault
                       (add_messages_from_remote_txn dumps origin message_id
                          local_messages_by_user_then_device now_ms stream_id)
                       (db self1);
          self2 = self1\<lparr>db := d\<rparr>
      in case res of
           Inl e \<Rightarrow> (Inl e, self2)
         | Inr u \<Rightarrow>
             (Inr (), self2\<lparr>device_inbox_stream_cache :=
                        mark_all (device_inbox_stream_cache self2)
                          (keys local_messages_by_user_then_device) stream_id\<rparr>))"

subsection \<open>Trimming\<close>

text \<open>
  \<open>delete_messages_for_device\<close>:
  \<^verbatim>\<open>DELETE FROM device_inbox WHERE user_id = ? AND device_id = ? AND stream_id <= ?\<close>,
  and \<open>delete_device_msgs_for_remote\<close>:
  \<^verbatim>\<open>DELETE FROM device_federation_outbox WHERE destination = ? AND stream_id <= ?\<close>.
\<close>

definition delete_messages_for_device_txn :: "string \<Rightarrow> string \<Rightarrow> int \<Rightarrow> unit txn" where
  "delete_messages_for_device_txn user_id device_id up_to_stream_id txn =
     Inr ((), txn\<lparr>device_inbox :=
                    filter (\<lambda>(u, d, stream_id, message_json).
                              \<not> (u = user_id \<and> d = device_id \<and> stream_id \<le> up_to_stream_id))
                      (device_inbox txn)\<rparr>)"

definition delete_messages_for_device ::
  "error option \<Rightarrow> store \<Rightarrow> string \<Rightarrow> string \<Rightarrow> int \<Rightarrow> (error + unit) \<times> store" where
  "delete_messages_for_device fault self user_id device_id up_to_stream_id =
     (let (res, d) = runInteraction fault
                       (delete_messages_for_device_txn user_id device_id up_to_stream_id) (db self)
      in (res, self\<lparr>db := d\<rparr>))"

definition delete_messages_for_remote_destination_txn :: "string \<Rightarrow> int \<Rightarrow> unit txn" where
  "delete_messages_for_remote_destination_txn destination up_to_stream_id txn =
     Inr ((), txn\<lparr>device_federation_outbox :=
                    filter (\<lambda>(dest, stream_id, queued_ts, messages_json).
                              \<not> (dest = destination \<and> stream_id \<le> up_to_stream_id))
                      (device_federation_outbox txn)\<rparr>)"

definition delete_device_msgs_for_remote ::
  "error option \<Rightarrow> store \<Rightarrow> string \<Rightarrow> int \<Rightarrow> (error + unit) \<times> store" where
  "delete_device_msgs_for_remote fault self destination up_to_stream_id =
     (let (res, d) = runInteraction fault
                       (delete_messages_for_remote_destination_txn destination up_to_stream_id) (db self)
      in (res, self\<lparr>db := d\<rparr>))"

subsection \<open>The rows a batch is expected to add\<close>

text \<open>
  One local inbox row for every addressed \<open>(user, device)\<close> pair that is in the table
  \<open>devices\<close>, and one federation outbox row for every destination.
\<close>

definition local_inbox_rows ::
  "('m \<Rightarrow> string) \<Rightarrow> devices_row list \<Rightarrow> int \<Rightarrow> 'm messages_by_user_then_device \<Rightarrow> device_inbox_row list" where
  "local_inbox_rows dumps devs stream_id messages_by_user_then_device =
     concat (map (\<lambda>(user_id, messages_by_device).
       map (\<lambda>(device_id, message). (user_id, device_id, stream_id, dumps message))
         (filter (\<lambda>(device_id, message). (user_id, device_id) \<in> set devs) messages_by_device))
       messages_by_user_then_device)"

definition federation_outbox_rows ::
  "('m \<Rightarrow> string) \<Rightarrow> int \<Rightarrow> int \<Rightarrow> (string \<times> 'm) list \<Rightarrow> device_federation_outbox_row list" where
  "federation_outbox_rows dumps stream_id now_ms remote_messages_by_destination =
     map (\<lambda>(destination, edu). (destination, stream_id, now_ms, dumps edu))
       remote_messages_by_destination"

section \<open>Invariants of the store\<close>

text \<open>
  Every row of the local inbox is covered by its user's entry in the change cache (the
  cache has no false negative); the positions of a device's rows are distinct; no row is
  beyond the last position that the generator issued.
\<close>

definition cache_covers :: "store \<Rightarrow> bool" where
  "cache_covers self =
     list_all (\<lambda>(u, d, stream_id, message_json).
                 case device_inbox_stream_cache self u of
                   None \<Rightarrow> False
                 | Some latest \<Rightarrow> stream_id \<le> latest)
       (device_inbox (db self))"

definition device_positions :: "device_inbox_row list \<Rightarrow> string \<Rightarrow> string \<Rightarrow> int list" where
  "device_positions tbl user_id device_id =
     map (\<lambda>(u, d, stream_id, message_json). stream_id)
       (filter (\<lambda>(u, d, stream_id, message_json). u = user_id \<and> d = device_id) tbl)"

definition stream_positions :: "database \<Rightarrow> int list" where
  "stream_positions d =
     map (\<lambda>(u, dev, stream_id, message_json). stream_id) (device_inbox d)
     @ map (\<lambda>(destination, stream_id, queued_ts, messages_json). stream_id) (device_federation_outbox d)"

definition positions_issued :: "store \<Rightarrow> bool" where
  "positions_issued self =
     list_all (\<lambda>stream_id. stream_id \<le> device_inbox_id_gen self) (stream_positions (db self))"

text \<open>
  The three together, with the distinctness stated for all devices at once: no two rows
  of the local inbox have the same user, device and position.
\<close>

definition store_invariant :: "store \<Rightarrow> bool" where
  "store_invariant self =
     (cache_covers self \<and> positions_issued self \<and>
      distinct (map (\<lambda>(u, d, stream_id, message_json). (u, d, stream_id)) (device_inbox (db self))))"

text \<open>The arguments of a write are Python dicts: no key occurs twice.\<close>

definition is_dict_of_dicts :: "'m messages_by_user_then_device \<Rightarrow> bool" where
  "is_dict_of_dicts messages_by_user_then_device =
     (is_dict messages_by_user_then_device \<and>
      list_all (\<lambda>(user_id, messages_by_device). is_dict messages_by_device)
        messages_by_user_then_device)"

text \<open>The store before any write.\<close>

definition empty_store :: store where
  "empty_store = \<lparr>db = \<lparr>devices = [], device_inbox = [], device_federation_outbox = [],
                         device_federation_inbox = []\<rparr>,
                  device_inbox_id_gen = 0,
                  device_inbox_stream_cache = Map.empty,
                  device_federation_outbox_stream_cache = Map.empty\<rparr>"

section \<open>Example stores\<close>

text \<open>
  Alice has one device, with three queued messages at the positions 1, 2 and 5; the
  federation outbox holds one entry for each of two destinations.
\<close>

definition store0 :: store where
  "store0 = \<lparr>db = \<lparr>devices = [(''alice'', ''dev1'')],
       device_inbox = [(''alice'', ''dev1'', 1, ''a''), (''alice'', ''dev1'', 2, ''b''),
                       (''alice'', ''dev1'', 5, ''c'')],
       device_federation_outbox = [(''other'', 1, 0, ''x''), (''hs'', 3, 0, ''y'')],
       device_federation_inbox = []\<rparr>,
     device_inbox_id_gen = 5,
     device_inbox_stream_cache = [''alice'' \<mapsto> 5],
     device_federation_outbox_stream_cache = [''other'' \<mapsto> 1, ''hs'' \<mapsto> 3]\<rparr>"

text \<open>The same store after the remote batch \<open>msg1\<close> of \<open>hs\<close> was received.\<close>

definition store1 :: store where
  "store1 = store0\<lparr>db := (db store0)\<lparr>device_federation_inbox := [(''hs'', ''msg1'', 0)]\<rparr>\<rparr>"

text \<open>
  A batch for two devices of Alice, of which only \<open>dev1\<close> exists, and for a device of
  Bob, who has none; and a batch for one remote destination.
\<close>

definition batch0 :: "string messages_by_user_then_device" where
  "batch0 = [(''alice'', [(''dev1'', ''m1''), (''dev2'', ''m2'')]), (''bob'', [(''dev9'', ''m3'')])]"

definition remote0 :: "(string \<times> string) list" where
  "remote0 = [(''hs'', ''e1'')]"

text \<open>
  A store in which the batch at position 1 went to two recipients, and the batch at
  position 2 to one.
\<close>

definition store2 :: store where
  "store2 = \<lparr>db = \<lparr>devices = [(''alice'', ''dev1''), (''bob'', ''dev2'')],
       device_inbox = [(''alice'', ''dev1'', 1, ''a''), (''bob'', ''dev2'', 1, ''b''),
                       (''alice'', ''dev1'', 2, ''c'')],
       device_federation_outbox = [],
       device_federation_inbox = []\<rparr>,
     device_inbox_id_gen = 2,
     device_inbox_stream_cache = [''alice'' \<mapsto> 2, ''bob'' \<mapsto> 1],
     device_federation_outbox_stream_cache = Map.empty\<rparr>"

section \<open>Properties of the cursor reads\<close>

lemma fetch_loop_eq:
  "fetch_loop loads rows =
     ((if rows = [] then None else Some (fst (last rows))), map (\<lambda>row. loads (snd row)) rows)"
proof -
  have "fold (\<lambda>row (stream_pos, messages). (Some (fst row), messages @ [loads (snd row)])) rows (sp, acc)
        = ((if rows = [] then sp else Some (fst (last rows))), acc @ map (\<lambda>row. loads (snd row)) rows)"
    for sp :: "int option" and acc
    by (induction rows arbitrary: sp acc) auto
  then show ?thesis by (simp add: fetch_loop_def)
qed

lemma cursor_result_eq:
  "cursor_result loads rows current_stream_id limit =
     (if length rows < limit then Inr (map (\<lambda>row. loads (snd row)) rows, current_stream_id)
      else if rows = [] then Inl UnboundLocalError
      else Inr (map (\<lambda>row. loads (snd row)) rows, fst (last rows)))"
  by (simp add: cursor_result_def fetch_loop_eq)

text \<open>
  Claim C1. A cursor read (\<open>get_new_messages_for_device\<close> and
  \<open>get_new_device_msgs_for_remote\<close>) whose query runs and returns rows returns the
  payloads of these rows; the position it returns is the stream position of the last row
  when the number of rows equals \<open>limit\<close>, and \<open>current_stream_id\<close> when it is
  less than \<open>limit\<close>, whether or not a row is stored at that position. The query never
  returns more than \<open>limit\<close> rows.
\<close>

theorem cursor_new_last_position:
  "(has_entity_changed (device_inbox_stream_cache self) user_id last_stream_id \<and>
    select_device_inbox (device_inbox (db self)) user_id device_id last_stream_id current_stream_id limit = rows \<and>
    rows \<noteq> []
    \<longrightarrow> get_new_messages_for_device loads None self user_id device_id last_stream_id current_stream_id limit
          = Inr (map (\<lambda>row. loads (snd row)) rows,
                 if length rows = limit then fst (last rows) else current_stream_id)
        \<and> length rows \<le> limit)
   \<and>
   (has_entity_changed (device_federation_outbox_stream_cache self) destination last_stream_id \<and>
    select_device_federation_outbox (device_federation_outbox (db self)) destination last_stream_id current_stream_id limit = rows' \<and>
    rows' \<noteq> []
    \<longrightarrow> get_new_device_msgs_for_remote loads None self destination last_stream_id current_stream_id limit
          = Inr (map (\<lambda>row. loads (snd row)) rows',
                 if length rows' = limit then fst (last rows') else current_stream_id)
        \<and> length rows' \<le> limit)"
proof -
  have len: "length (select_device_inbox tbl u d l c limit) \<le> limit" for tbl u d l c
    by (simp add: select_device_inbox_def)
  have len': "length (select_device_federation_outbox tbl' u l c limit) \<le> limit" for tbl' u l c
    by (simp add: select_device_federation_outbox_def)
  show ?thesis
    using len[of "device_inbox (db self)" user_id device_id last_stream_id current_stream_id]
      len'[of "device_federation_outbox (db self)" destination last_stream_id current_stream_id]
    by (auto simp: get_new_messages_for_device_def get_new_device_msgs_for_remote_def
        runInteraction_def get_new_messages_for_device_txn_def
        get_new_messages_for_remote_destination_txn_def cursor_result_eq Let_def)
qed

theorem cursor_new_last_position_witness:
  "get_new_messages_for_device id None store0 ''alice'' ''dev1'' 0 7 2 = Inr ([''a'', ''b''], 2)
   \<and> get_new_device_msgs_for_remote id None store0 ''hs'' 0 7 2 = Inr ([''y''], 7)"
  using cursor_new_last_position[where self = store0 and user_id = "''alice''" and device_id = "''dev1''"
      and last_stream_id = 0 and current_stream_id = 7 and limit = 2 and loads = id
      and rows = "[(1, ''a''), (2, ''b'')]" and destination = "''hs''" and rows' = "[(3, ''y'')]"]
  by (simp add: store0_def has_entity_changed_def select_device_inbox_def select_device_federation_outbox_def)

section \<open>The write path in closed form\<close>

lemma local_users_and_devices_fold:
  "fold (\<lambda>(user_id, messages_by_device) acc.
           acc \<union> set (select_devices devs user_id (keys messages_by_device))) msgs acc0
   = acc0 \<union> {(u, d). (u, d) \<in> set devs \<and> (\<exists>mbd. (u, mbd) \<in> set msgs \<and> d \<in> set (keys mbd))}"
proof (induction msgs arbitrary: acc0)
  case Nil
  then show ?case by simp
next
  case (Cons a msgs)
  obtain user_id mbd where a: "a = (user_id, mbd)" by (cases a)
  show ?case
    unfolding a by (simp add: Cons.IH) (auto simp: select_devices_def)
qed

lemma add_messages_to_local_device_inbox_txn_eq:
  "add_messages_to_local_device_inbox_txn dumps txn stream_id msgs =
     txn\<lparr>device_inbox := device_inbox txn @ local_inbox_rows dumps (devices txn) stream_id msgs\<rparr>"
proof -
  define L where
    "L = {(u, d). (u, d) \<in> set (devices txn) \<and> (\<exists>mbd. (u, mbd) \<in> set msgs \<and> d \<in> set (keys mbd))}"
  have inner: "concat (map (\<lambda>(device_id, message).
                  if (user_id, device_id) \<in> L
                  then [(user_id, device_id, stream_id, dumps message)] else []) mbd)
             = map (\<lambda>(device_id, message). (user_id, device_id, stream_id, dumps message))
                 (filter (\<lambda>(device_id, message). (user_id, device_id) \<in> set (devices txn)) mbd)"
    if "(user_id, mbd) \<in> set msgs" for user_id mbd
  proof -
    have "concat (map (\<lambda>(device_id, message).
                  if (user_id, device_id) \<in> L
                  then [(user_id, device_id, stream_id, dumps message)] else []) xs)
             = map (\<lambda>(device_id, message). (user_id, device_id, stream_id, dumps message))
                 (filter (\<lambda>(device_id, message). (user_id, device_id) \<in> set (devices txn)) xs)"
      if "set xs \<subseteq> set mbd" for xs
      using that
    proof (induction xs)
      case Nil
      then show ?case by simp
    next
      case (Cons x xs)
      obtain device_id message where x: "x = (device_id, message)" by (cases x)
      have "device_id \<in> set (keys mbd)"
        using Cons.prems unfolding x keys_def by force
      then have "(user_id, device_id) \<in> L \<longleftrightarrow> (user_id, device_id) \<in> set (devices txn)"
        using \<open>(user_id, mbd) \<in> set msgs\<close> unfolding L_def by auto
      then show ?case
        using Cons unfolding x by simp
    qed
    then show ?thesis by simp
  qed
  have "map (\<lambda>(user_id, messages_by_device).
              concat (map (\<lambda>(device_id, message).
                if (user_id, device_id) \<in> L
                then [(user_id, device_id, stream_id, dumps message)] else [])
                messages_by_device)) msgs
        = map (\<lambda>(user_id, messages_by_device).
            map (\<lambda>(device_id, message). (user_id, device_id, stream_id, dumps message))
              (filter (\<lambda>(device_id, message). (user_id, device_id) \<in> set (devices txn))
                 messages_by_device)) msgs"
  proof (rule map_cong[OF refl])
    fix x assume xin: "x \<in> set msgs"
    obtain u0 mbd0 where x: "x = (u0, mbd0)" by (cases x)
    show "(case x of (user_id, messages_by_device) \<Rightarrow>
              concat (map (\<lambda>(device_id, message).
                if (user_id, device_id) \<in> L
                then [(user_id, device_id, stream_id, dumps message)] else [])
                messages_by_device))
          = (case x of (user_id, messages_by_device) \<Rightarrow>
            map (\<lambda>(device_id, message). (user_id, device_id, stream_id, dumps message))
              (filter (\<lambda>(device_id, message). (user_id, device_id) \<in> set (devices txn))
                 messages_by_device))"
      using xin unfolding x by (simp add: inner)
  qed
  then have rows: "concat (map (\<lambda>(user_id, messages_by_device).
              concat (map (\<lambda>(device_id, message).
                if (user_id, device_id) \<in> L
                then [(user_id, device_id, stream_id, dumps message)] else [])
                messages_by_device)) msgs)
        = local_inbox_rows dumps (devices txn) stream_id msgs"
    unfolding local_inbox_rows_def by (rule arg_cong)
  have "fold (\<lambda>(user_id, messages_by_device) acc.
           acc \<union> set (select_devices (devices txn) user_id (keys messages_by_device))) msgs {} = L"
    unfolding L_def local_users_and_devices_fold by simp
  then show ?thesis
    by (simp add: add_messages_to_local_device_inbox_txn_def rows Let_def)
qed

lemma mark_all_apply:
  "mark_all cache entities stream_id e =
     (if e \<in> set entities
      then Some (case cache e of None \<Rightarrow> stream_id | Some old_pos \<Rightarrow> max stream_id old_pos)
      else cache e)"
  unfolding mark_all_def
proof (induction entities arbitrary: cache)
  case Nil
  then show ?case by simp
next
  case (Cons a entities)
  show ?case
    by (simp add: Cons.IH) (auto simp: entity_has_changed_def split: option.splits)
qed

lemma add_messages_to_device_inbox_eq:
  "add_messages_to_device_inbox dumps fault now_ms self local remote =
     (let stream_id = device_inbox_id_gen self + 1 in
      case fault of
        Some e \<Rightarrow> (Inl e, self\<lparr>device_inbox_id_gen := stream_id\<rparr>)
      | None \<Rightarrow>
          (Inr stream_id,
           self\<lparr>device_inbox_id_gen := stream_id,
                db := (db self)\<lparr>
                  device_inbox := device_inbox (db self)
                     @ local_inbox_rows dumps (devices (db self)) stream_id local,
                  device_federation_outbox := device_federation_outbox (db self)
                     @ federation_outbox_rows dumps stream_id now_ms remote\<rparr>,
                device_inbox_stream_cache :=
                  mark_all (device_inbox_stream_cache self) (keys local) stream_id,
                device_federation_outbox_stream_cache :=
                  mark_all (device_federation_outbox_stream_cache self) (keys remote) stream_id\<rparr>))"
  by (simp add: add_messages_to_device_inbox_def get_next_def get_current_token_def
      runInteraction_def add_messages_txn_def add_messages_to_local_device_inbox_txn_eq
      federation_outbox_rows_def Let_def split: option.splits)

lemma add_messages_from_remote_to_device_inbox_eq:
  "add_messages_from_remote_to_device_inbox dumps fault now_ms self origin message_id local =
     (let stream_id = device_inbox_id_gen self + 1 in
      case fault of
        Some e \<Rightarrow> (Inl e, self\<lparr>device_inbox_id_gen := stream_id\<rparr>)
      | None \<Rightarrow>
          (Inr (),
           self\<lparr>device_inbox_id_gen := stream_id,
                db := (if simple_select_one_txn (db self) origin message_id \<noteq> None then db self
                       else (db self)\<lparr>
                         device_federation_inbox := device_federation_inbox (db self)
                            @ [(origin, message_id, now_ms)],
                         device_inbox := device_inbox (db self)
                            @ local_inbox_rows dumps (devices (db self)) stream_id local\<rparr>),
                device_inbox_stream_cache :=
                  mark_all (device_inbox_stream_cache self) (keys local) stream_id\<rparr>))"
  by (auto simp: add_messages_from_remote_to_device_inbox_def get_next_def
      runInteraction_def add_messages_from_remote_txn_def add_messages_to_local_device_inbox_txn_eq
      simple_insert_txn_def Let_def split: option.splits)

section \<open>Properties of the writes\<close>


lemma local_inbox_rows_set:
  "(u, d, s, m) \<in> set (local_inbox_rows dumps devs stream_id msgs) \<Longrightarrow>
     (u, d) \<in> set devs \<and> s = stream_id"
  by (auto simp: local_inbox_rows_def)

lemma local_inbox_rows_position:
  "list_all (\<lambda>(u, d, s, m). s = stream_id) (local_inbox_rows dumps devs stream_id msgs)"
  by (auto simp: list_all_iff dest: local_inbox_rows_set)

lemma federation_outbox_rows_position:
  "list_all (\<lambda>(dest, s, t, m). s = stream_id) (federation_outbox_rows dumps stream_id now_ms remote)"
  by (auto simp: list_all_iff federation_outbox_rows_def)

lemma local_inbox_rows_other_device:
  "(user_id, device_id) \<notin> set devs \<Longrightarrow>
     filter (\<lambda>(u, d, s, m). u = user_id \<and> d = device_id \<and> Q s)
       (local_inbox_rows dumps devs stream_id msgs) = []"
  by (auto simp: filter_empty_conv dest: local_inbox_rows_set)

text \<open>
  Claim C2. \<open>add_messages_to_device_inbox\<close> either raises the error of the failed
  transaction and leaves the database (all its tables) as it was, or returns a token
  and has appended exactly the expected local inbox rows (one for every addressed
  device that exists) and one federation outbox row for every destination, all of them
  at the one position that the generator issued for the call; if no stored row was
  beyond the generator's last position before the call, no stored row had that
  position. Nothing in between is a result.
\<close>

theorem enqueue_atomic:
  "case add_messages_to_device_inbox dumps fault now_ms self local remote of
     (Inl e, self') \<Rightarrow> fault = Some e \<and> db self' = db self
   | (Inr token, self') \<Rightarrow>
       fault = None \<and> token = device_inbox_id_gen self + 1 \<and>
       db self' = (db self)\<lparr>
         device_inbox := device_inbox (db self)
            @ local_inbox_rows dumps (devices (db self)) token local,
         device_federation_outbox := device_federation_outbox (db self)
            @ federation_outbox_rows dumps token now_ms remote\<rparr> \<and>
       list_all (\<lambda>(u, d, s, m). s = token)
         (local_inbox_rows dumps (devices (db self)) token local) \<and>
       list_all (\<lambda>(dest, s, t, m). s = token)
         (federation_outbox_rows dumps token now_ms remote) \<and>
       (positions_issued self \<longrightarrow> token \<notin> set (stream_positions (db self)))"
proof (cases fault)
  case None
  have "device_inbox_id_gen self + 1 \<notin> set (stream_positions (db self))"
    if "positions_issued self"
    using that by (auto simp: positions_issued_def list_all_iff)
  then show ?thesis
    using None
    by (simp add: add_messages_to_device_inbox_eq local_inbox_rows_position
        federation_outbox_rows_position Let_def)
next
  case (Some e)
  then show ?thesis
    by (simp add: add_messages_to_device_inbox_eq Let_def)
qed

theorem enqueue_atomic_witness:
  "add_messages_to_device_inbox id (Some StorageError) 99 store0 batch0 remote0
     = (Inl StorageError, store0\<lparr>device_inbox_id_gen := 6\<rparr>)
   \<and> fst (add_messages_to_device_inbox id None 99 store0 batch0 remote0) = Inr 6
   \<and> db (snd (add_messages_to_device_inbox id None 99 store0 batch0 remote0))
       = (db store0)\<lparr>
           device_inbox := device_inbox (db store0) @ [(''alice'', ''dev1'', 6, ''m1'')],
           device_federation_outbox := device_federation_outbox (db store0) @ [(''hs'', 6, 99, ''e1'')]\<rparr>
   \<and> positions_issued store0 \<and> 6 \<notin> set (stream_positions (db store0))"
  using enqueue_atomic[where dumps = id and fault = "Some StorageError" and now_ms = 99
      and self = store0 and local = batch0 and remote = remote0]
    enqueue_atomic[where dumps = id and fault = None and now_ms = 99
      and self = store0 and local = batch0 and remote = remote0]
  by (simp add: add_messages_to_device_inbox_eq store0_def batch0_def remote0_def Let_def
      local_inbox_rows_def federation_outbox_rows_def positions_issued_def stream_positions_def)

text \<open>
  Claim C7. A call of \<open>add_messages_to_device_inbox\<close> that succeeds returns the
  position that the generator reserved for the call, which is the generator's current
  token after the call; the rows that the call appended to the local inbox and to the
  federation outbox are all at that position.
\<close>

theorem enqueue_returns_reserved_position:
  "add_messages_to_device_inbox dumps fault now_ms self local remote = (Inr token, self') \<Longrightarrow>
     token = fst (get_next (device_inbox_id_gen self)) \<and>
     token = get_current_token (device_inbox_id_gen self') \<and>
     device_inbox (db self') = device_inbox (db self)
        @ local_inbox_rows dumps (devices (db self)) token local \<and>
     device_federation_outbox (db self') = device_federation_outbox (db self)
        @ federation_outbox_rows dumps token now_ms remote \<and>
     list_all (\<lambda>(u, d, s, m). s = token) (local_inbox_rows dumps (devices (db self)) token local) \<and>
     list_all (\<lambda>(dest, s, t, m). s = token) (federation_outbox_rows dumps token now_ms remote)"
  by (cases fault)
    (auto simp: add_messages_to_device_inbox_eq get_next_def get_current_token_def Let_def
      local_inbox_rows_position federation_outbox_rows_position)

theorem enqueue_returns_reserved_position_witness:
  "add_messages_to_device_inbox id None 99 store0 batch0 remote0
     = (Inr 6, snd (add_messages_to_device_inbox id None 99 store0 batch0 remote0))
   \<and> fst (get_next (device_inbox_id_gen store0)) = 6
   \<and> get_current_token (device_inbox_id_gen
        (snd (add_messages_to_device_inbox id None 99 store0 batch0 remote0))) = 6
   \<and> device_inbox (db (snd (add_messages_to_device_inbox id None 99 store0 batch0 remote0)))
       = device_inbox (db store0) @ [(''alice'', ''dev1'', 6, ''m1'')]
   \<and> device_federation_outbox (db (snd (add_messages_to_device_inbox id None 99 store0 batch0 remote0)))
       = device_federation_outbox (db store0) @ [(''hs'', 6, 99, ''e1'')]"
proof -
  have run: "add_messages_to_device_inbox id None 99 store0 batch0 remote0
     = (Inr 6, snd (add_messages_to_device_inbox id None 99 store0 batch0 remote0))"
    by (simp add: add_messages_to_device_inbox_eq Let_def store0_def)
  show ?thesis
    using enqueue_returns_reserved_position[OF run]
    by (simp add: add_messages_to_device_inbox_eq Let_def store0_def batch0_def remote0_def
        local_inbox_rows_def federation_outbox_rows_def get_next_def get_current_token_def)
qed

text \<open>
  Claim C8. With both maps empty and no failure of the transaction,
  \<open>add_messages_to_device_inbox\<close> raises nothing: it returns a token, the position
  that the generator issued for the call, which is spent; the database (every table) and
  both change caches are as before.
\<close>

theorem enqueue_empty_batch:
  "add_messages_to_device_inbox dumps None now_ms self [] [] =
     (Inr (device_inbox_id_gen self + 1),
      self\<lparr>device_inbox_id_gen := device_inbox_id_gen self + 1\<rparr>)"
  by (simp add: add_messages_to_device_inbox_eq Let_def local_inbox_rows_def
      federation_outbox_rows_def mark_all_def keys_def)

text \<open>
  Claim C9. When the pair \<open>(origin, message_id)\<close> is already recorded, a call of
  \<open>add_messages_from_remote_to_device_inbox\<close> whose transaction succeeds leaves the
  database (all tables) unchanged, spends a fresh position of the generator, and marks
  every user key of the input in the change cache at that position (at the later of it
  and the user's earlier mark), so that the cache reports a change since the position
  before the call, though no row was written.
\<close>

theorem remote_duplicate_effects:
  "simple_select_one_txn (db self) origin message_id \<noteq> None \<Longrightarrow>
   (case add_messages_from_remote_to_device_inbox dumps None now_ms self origin message_id local of
      (res, self') \<Rightarrow>
        res = Inr () \<and> db self' = db self \<and>
        device_inbox_id_gen self' = device_inbox_id_gen self + 1 \<and>
        (\<forall>user_id \<in> set (keys local).
           device_inbox_stream_cache self' user_id =
             Some (case device_inbox_stream_cache self user_id of
                     None \<Rightarrow> device_inbox_id_gen self + 1
                   | Some old_pos \<Rightarrow> max (device_inbox_id_gen self + 1) old_pos) \<and>
           has_entity_changed (device_inbox_stream_cache self') user_id (device_inbox_id_gen self)))"
  by (auto simp: add_messages_from_remote_to_device_inbox_eq Let_def mark_all_apply
      has_entity_changed_def split: option.splits)

theorem remote_duplicate_effects_witness:
  "simple_select_one_txn (db store1) ''hs'' ''msg1'' \<noteq> None
   \<and> fst (add_messages_from_remote_to_device_inbox id None 99 store1 ''hs'' ''msg1'' batch0) = Inr ()
   \<and> db (snd (add_messages_from_remote_to_device_inbox id None 99 store1 ''hs'' ''msg1'' batch0)) = db store1
   \<and> device_inbox_id_gen (snd (add_messages_from_remote_to_device_inbox id None 99 store1 ''hs'' ''msg1'' batch0)) = 6
   \<and> device_inbox_stream_cache (snd (add_messages_from_remote_to_device_inbox id None 99 store1 ''hs'' ''msg1'' batch0)) ''bob'' = Some 6
   \<and> device_inbox_stream_cache store1 ''bob'' = None"
proof -
  have dup: "simple_select_one_txn (db store1) ''hs'' ''msg1'' \<noteq> None"
    by (simp add: simple_select_one_txn_def store1_def store0_def)
  show ?thesis
    using dup remote_duplicate_effects[OF dup, where dumps = id and now_ms = 99 and local = batch0]
    by (simp add: split_beta store1_def store0_def batch0_def keys_def)
qed

lemma simple_select_one_txn_recorded:
  "simple_select_one_txn
     (d\<lparr>device_federation_inbox := device_federation_inbox d @ [(origin, message_id, received_ts)],
        device_inbox := tbl\<rparr>) origin message_id \<noteq> None"
  by (simp add: simple_select_one_txn_def split: list.splits prod.splits)

text \<open>
  Claim C3. Two calls of \<open>add_messages_from_remote_to_device_inbox\<close> with the same
  origin, message id and messages, one after the other and neither failing in the
  storage engine: both return normally and the second leaves the database (all its
  tables) exactly as the first left it. When the pair was not recorded before the
  first call, the first call appends the record of the pair and the expected local inbox
  rows, so the effect of the messages is there once.
\<close>

theorem remote_ingest_idempotent:
  "case add_messages_from_remote_to_device_inbox dumps None now_ms self origin message_id local of
     (res1, self1) \<Rightarrow>
       (case add_messages_from_remote_to_device_inbox dumps None now_ms' self1 origin message_id local of
          (res2, self2) \<Rightarrow>
            res1 = Inr () \<and> res2 = Inr () \<and> db self2 = db self1 \<and>
            (simple_select_one_txn (db self) origin message_id = None \<longrightarrow>
               db self1 = (db self)\<lparr>
                 device_federation_inbox := device_federation_inbox (db self)
                    @ [(origin, message_id, now_ms)],
                 device_inbox := device_inbox (db self)
                    @ local_inbox_rows dumps (devices (db self)) (device_inbox_id_gen self + 1) local\<rparr>))"
  by (simp add: add_messages_from_remote_to_device_inbox_eq Let_def simple_select_one_txn_recorded)

theorem remote_ingest_idempotent_witness:
  "simple_select_one_txn (db store0) ''hs'' ''msg1'' = None
   \<and> db (snd (add_messages_from_remote_to_device_inbox id None 99 store0 ''hs'' ''msg1'' batch0))
       = (db store0)\<lparr>device_federation_inbox := [(''hs'', ''msg1'', 99)],
            device_inbox := device_inbox (db store0) @ [(''alice'', ''dev1'', 6, ''m1'')]\<rparr>
   \<and> db (snd (add_messages_from_remote_to_device_inbox id None 100
              (snd (add_messages_from_remote_to_device_inbox id None 99 store0 ''hs'' ''msg1'' batch0))
              ''hs'' ''msg1'' batch0))
       = db (snd (add_messages_from_remote_to_device_inbox id None 99 store0 ''hs'' ''msg1'' batch0))"
  using remote_ingest_idempotent[where dumps = id and now_ms = 99 and now_ms' = 100 and self = store0
      and origin = "''hs''" and message_id = "''msg1''" and local = batch0]
  by (simp add: split_beta simple_select_one_txn_def store0_def batch0_def local_inbox_rows_def)

lemma get_new_messages_for_device_eq:
  "get_new_messages_for_device loads fault self user_id device_id last_stream_id current_stream_id limit =
     (if \<not> has_entity_changed (device_inbox_stream_cache self) user_id last_stream_id
      then Inr ([], current_stream_id)
      else (case cursor_result loads
                  (select_device_inbox (device_inbox (db self)) user_id device_id
                     last_stream_id current_stream_id limit)
                  current_stream_id limit of
              Inl e \<Rightarrow> Inl e
            | Inr r \<Rightarrow> (case fault of Some e \<Rightarrow> Inl e | None \<Rightarrow> Inr r)))"
  by (cases "cursor_result loads
                  (select_device_inbox (device_inbox (db self)) user_id device_id
                     last_stream_id current_stream_id limit)
                  current_stream_id limit")
    (simp_all add: get_new_messages_for_device_def runInteraction_def
      get_new_messages_for_device_txn_def Let_def split: option.splits)

text \<open>
  Claim C4. A write (\<open>add_messages_to_device_inbox\<close> or
  \<open>add_messages_from_remote_to_device_inbox\<close>) whose transaction does not fail, with
  any messages, and a pair \<open>(user_id, device_id)\<close> that is not in the table
  \<open>devices\<close>: the write returns normally, the rows of the local inbox for that pair
  are the ones that were there before, the local inbox has grown by the rows for the
  devices that exist (by nothing, for a remote batch already recorded), and a read for
  that pair from the store after the write returns what it returns when the database is
  the one before the write.
\<close>

theorem nonexistent_device_dropped:
  assumes "(user_id, device_id) \<notin> set (devices (db self))"
  shows
  "(case add_messages_to_device_inbox dumps None now_ms self local remote of
      (res, self') \<Rightarrow>
        res = Inr (device_inbox_id_gen self + 1) \<and>
        device_inbox (db self') = device_inbox (db self)
           @ local_inbox_rows dumps (devices (db self)) (device_inbox_id_gen self + 1) local \<and>
        filter (\<lambda>(u, d, s, m). u = user_id \<and> d = device_id) (device_inbox (db self'))
          = filter (\<lambda>(u, d, s, m). u = user_id \<and> d = device_id) (device_inbox (db self)) \<and>
        get_new_messages_for_device loads fault self' user_id device_id last_stream_id current_stream_id limit
          = get_new_messages_for_device loads fault (self'\<lparr>db := db self\<rparr>) user_id device_id
              last_stream_id current_stream_id limit)
   \<and>
   (case add_messages_from_remote_to_device_inbox dumps None now_ms self origin message_id local of
      (res, self') \<Rightarrow>
        res = Inr () \<and>
        device_inbox (db self') = device_inbox (db self)
           @ (if simple_select_one_txn (db self) origin message_id \<noteq> None then []
              else local_inbox_rows dumps (devices (db self)) (device_inbox_id_gen self + 1) local) \<and>
        filter (\<lambda>(u, d, s, m). u = user_id \<and> d = device_id) (device_inbox (db self'))
          = filter (\<lambda>(u, d, s, m). u = user_id \<and> d = device_id) (device_inbox (db self)) \<and>
        get_new_messages_for_device loads fault self' user_id device_id last_stream_id current_stream_id limit
          = get_new_messages_for_device loads fault (self'\<lparr>db := db self\<rparr>) user_id device_id
              last_stream_id current_stream_id limit)"
proof -
  let ?rows = "local_inbox_rows dumps (devices (db self)) (device_inbox_id_gen self + 1) local"
  have none: "filter (\<lambda>(u, d, s, m). u = user_id \<and> d = device_id \<and> Q s) ?rows = []" for Q
    using assms by (rule local_inbox_rows_other_device)
  have none': "filter (\<lambda>(u, d, s, m). u = user_id \<and> d = device_id) ?rows = []"
    using none[of "\<lambda>s. True"] by simp
  have sel: "select_device_inbox (device_inbox (db self) @ ?rows) user_id device_id l c n
        = select_device_inbox (device_inbox (db self)) user_id device_id l c n" for l c n
    using none[of "\<lambda>s. l < s \<and> s \<le> c"] by (simp add: select_device_inbox_def)
  have gone: "\<And>u d s m. (u, d, s, m) \<in> set ?rows \<Longrightarrow> u = user_id \<Longrightarrow> d \<noteq> device_id"
    using assms by (auto dest: local_inbox_rows_set)
  show ?thesis
    by (auto simp: add_messages_to_device_inbox_eq add_messages_from_remote_to_device_inbox_eq
        Let_def get_new_messages_for_device_eq sel filter_empty_conv dest: gone)
qed

theorem nonexistent_device_dropped_witness:
  "(''alice'', ''dev2'') \<notin> set (devices (db store0))
   \<and> device_inbox (db (snd (add_messages_to_device_inbox id None 99 store0 batch0 remote0)))
       = device_inbox (db store0) @ [(''alice'', ''dev1'', 6, ''m1'')]
   \<and> get_new_messages_for_device id None
         (snd (add_messages_to_device_inbox id None 99 store0 batch0 remote0))
         ''alice'' ''dev2'' 0 6 10 = Inr ([], 6)
   \<and> device_inbox (db (snd (add_messages_from_remote_to_device_inbox id None 99 store0 ''hs'' ''msg1'' batch0)))
       = device_inbox (db store0) @ [(''alice'', ''dev1'', 6, ''m1'')]
   \<and> get_new_messages_for_device id None
         (snd (add_messages_from_remote_to_device_inbox id None 99 store0 ''hs'' ''msg1'' batch0))
         ''alice'' ''dev2'' 0 6 10 = Inr ([], 6)"
proof -
  have absent: "(''alice'', ''dev2'') \<notin> set (devices (db store0))"
    by (simp add: store0_def)
  show ?thesis
    using absent
      nonexistent_device_dropped[OF absent, where dumps = id and now_ms = 99 and local = batch0
        and remote = remote0 and loads = id and fault = None and last_stream_id = 0
        and current_stream_id = 6 and limit = 10 and origin = "''hs''" and message_id = "''msg1''"]
    by (simp add: split_beta add_messages_to_device_inbox_eq
        add_messages_from_remote_to_device_inbox_eq Let_def get_new_messages_for_device_eq
        mark_all_apply has_entity_changed_def cursor_result_eq select_device_inbox_def
        simple_select_one_txn_def local_inbox_rows_def store0_def batch0_def keys_def)
qed

section \<open>Totality of the device read\<close>


lemma select_device_inbox_length:
  "length (select_device_inbox tbl user_id device_id last_stream_id current_stream_id limit) \<le> limit"
  by (simp add: select_device_inbox_def)

text \<open>
  Claim C10. \<open>get_new_messages_for_device\<close>, when the storage engine does not fail:
  for every \<open>limit\<close> of at least 1 it returns a result, and when the change cache
  reports a change the position returned is \<open>current_stream_id\<close> if the query gave
  fewer rows than \<open>limit\<close> (also when it gave none) and the stream position of the last
  row otherwise. With \<open>limit = 0\<close> and a change reported, the query gives no row,
  \<open>stream_pos\<close> is never assigned, and the call fails with \<open>UnboundLocalError\<close>.
  When the cache reports no change, the result is the empty list and
  \<open>current_stream_id\<close>, for every \<open>limit\<close>.
\<close>

theorem device_read_total:
  "(let rows = select_device_inbox (device_inbox (db self)) user_id device_id
                 last_stream_id current_stream_id limit;
        result = get_new_messages_for_device loads None self user_id device_id
                   last_stream_id current_stream_id limit;
        has_changed = has_entity_changed (device_inbox_stream_cache self) user_id last_stream_id
    in (0 < limit \<longrightarrow> (\<exists>messages stream_pos. result = Inr (messages, stream_pos)))
     \<and> (0 < limit \<and> has_changed \<longrightarrow>
          result = Inr (map (\<lambda>row. loads (snd row)) rows,
                        if length rows < limit then current_stream_id else fst (last rows)))
     \<and> (limit = 0 \<and> has_changed \<longrightarrow> rows = [] \<and> result = Inl UnboundLocalError)
     \<and> (\<not> has_changed \<longrightarrow> result = Inr ([], current_stream_id)))"
proof -
  have zero: "select_device_inbox (device_inbox (db self)) user_id device_id
                last_stream_id current_stream_id 0 = []"
    by (simp add: select_device_inbox_def)
  show ?thesis
    using zero select_device_inbox_length[of "device_inbox (db self)" user_id device_id
        last_stream_id current_stream_id limit]
    by (auto simp: Let_def get_new_messages_for_device_eq cursor_result_eq)
qed

theorem device_read_total_witness:
  "get_new_messages_for_device id None store0 ''alice'' ''dev1'' 0 7 2 = Inr ([''a'', ''b''], 2)
   \<and> get_new_messages_for_device id None store0 ''alice'' ''dev1'' 2 7 2 = Inr ([''c''], 7)
   \<and> get_new_messages_for_device id None store0 ''alice'' ''dev2'' 0 7 2 = Inr ([], 7)
   \<and> get_new_messages_for_device id None store0 ''alice'' ''dev1'' 0 7 0 = Inl UnboundLocalError
   \<and> get_new_messages_for_device id None store0 ''alice'' ''dev1'' 5 7 0 = Inr ([], 7)"
  using device_read_total[where self = store0 and user_id = "''alice''" and device_id = "''dev1''"
      and last_stream_id = 0 and current_stream_id = 7 and limit = 2 and loads = id]
    device_read_total[where self = store0 and user_id = "''alice''" and device_id = "''dev1''"
      and last_stream_id = 2 and current_stream_id = 7 and limit = 2 and loads = id]
    device_read_total[where self = store0 and user_id = "''alice''" and device_id = "''dev2''"
      and last_stream_id = 0 and current_stream_id = 7 and limit = 2 and loads = id]
    device_read_total[where self = store0 and user_id = "''alice''" and device_id = "''dev1''"
      and last_stream_id = 0 and current_stream_id = 7 and limit = 0 and loads = id]
    device_read_total[where self = store0 and user_id = "''alice''" and device_id = "''dev1''"
      and last_stream_id = 5 and current_stream_id = 7 and limit = 0 and loads = id]
  by (simp add: Let_def store0_def has_entity_changed_def select_device_inbox_def)

section \<open>The replication read returns whole positions\<close>

lemma sorted_le_last:
  fixes xs :: "int list"
  shows "sorted xs \<Longrightarrow> x \<in> set xs \<Longrightarrow> x \<le> last xs"
  by (induction xs) auto

lemma take_sorted_distinct_closed:
  fixes xs :: "int list"
  assumes "sorted xs" "distinct xs" "p \<in> set xs" "take n xs \<noteq> []" "p \<le> last (take n xs)"
  shows "p \<in> set (take n xs)"
proof (rule ccontr)
  assume notin: "p \<notin> set (take n xs)"
  have split: "xs = take n xs @ drop n xs" by simp
  from notin assms(3) have pin: "p \<in> set (drop n xs)"
    by (metis Un_iff set_append split)
  have lin: "last (take n xs) \<in> set (take n xs)"
    using assms(4) by simp
  have "sorted (take n xs @ drop n xs)" using assms(1) by simp
  then have "last (take n xs) \<le> p"
    using lin pin unfolding sorted_append by blast
  with assms(5) have "p = last (take n xs)" by simp
  with lin notin show False by simp
qed

lemma select_stream_ids_props:
  "sorted (select_stream_ids tbl last_pos current_pos limit)"
  "distinct (select_stream_ids tbl last_pos current_pos limit)"
  "length (select_stream_ids tbl last_pos current_pos limit) \<le> limit"
  "s \<in> set (select_stream_ids tbl last_pos current_pos limit) \<Longrightarrow>
     last_pos < s \<and> s \<le> current_pos \<and> (\<exists>u d m. (u, d, s, m) \<in> set tbl)"
proof -
  show "sorted (select_stream_ids tbl last_pos current_pos limit)"
    by (simp add: select_stream_ids_def sorted_wrt_take)
  show "distinct (select_stream_ids tbl last_pos current_pos limit)"
    by (simp add: select_stream_ids_def)
  show "length (select_stream_ids tbl last_pos current_pos limit) \<le> limit"
    by (simp add: select_stream_ids_def)
  assume "s \<in> set (select_stream_ids tbl last_pos current_pos limit)"
  then have "s \<in> set (sort (remdups
       (map (\<lambda>(u, d, stream_id, message_json). stream_id)
         (filter (\<lambda>(u, d, stream_id, message_json). last_pos < stream_id \<and> stream_id \<le> current_pos)
          tbl))))"
    unfolding select_stream_ids_def by (rule in_set_takeD)
  then show "last_pos < s \<and> s \<le> current_pos \<and> (\<exists>u d m. (u, d, s, m) \<in> set tbl)"
    by auto
qed

lemma select_stream_ids_closed:
  assumes "(u, d, s, m) \<in> set tbl" "last_pos < s"
    and "select_stream_ids tbl last_pos current_pos limit \<noteq> []"
    and "s \<le> last (select_stream_ids tbl last_pos current_pos limit)"
  shows "s \<in> set (select_stream_ids tbl last_pos current_pos limit)"
proof -
  let ?all = "sort (remdups
       (map (\<lambda>(u, d, stream_id, message_json). stream_id)
         (filter (\<lambda>(u, d, stream_id, message_json). last_pos < stream_id \<and> stream_id \<le> current_pos)
          tbl)))"
  have ids: "select_stream_ids tbl last_pos current_pos limit = take limit ?all"
    by (simp add: select_stream_ids_def)
  have "last (take limit ?all) \<in> set (take limit ?all)"
    using assms(3) unfolding ids by simp
  then have "last (take limit ?all) \<le> current_pos"
    using select_stream_ids_props(4)[of "last (take limit ?all)" tbl last_pos current_pos limit]
    unfolding ids by simp
  with assms(4) have "s \<le> current_pos" unfolding ids by simp
  with assms(1,2) have "s \<in> set ?all" by force
  then show ?thesis
    unfolding ids
    using assms(3,4) unfolding ids
    by (intro take_sorted_distinct_closed) simp_all
qed

lemma select_device_inbox_up_to_set:
  "set (select_device_inbox_up_to tbl last_pos max_stream_id) =
     {(s, u, d, m). (u, d, s, m) \<in> set tbl \<and> last_pos < s \<and> s \<le> max_stream_id}"
  by (force simp: select_device_inbox_up_to_def)

lemma select_device_inbox_up_to_sorted:
  "sorted (map fst (select_device_inbox_up_to tbl last_pos max_stream_id))"
  by (simp add: select_device_inbox_up_to_def)

lemma get_all_new_device_messages_eq:
  "get_all_new_device_messages None self last_pos current_pos limit =
     Inr (if select_stream_ids (device_inbox (db self)) last_pos current_pos limit = [] then []
          else select_device_inbox_up_to (device_inbox (db self)) last_pos
                 (last (select_stream_ids (device_inbox (db self)) last_pos current_pos limit)))"
proof (cases "last_pos = current_pos")
  case True
  have "filter (\<lambda>(u, d, stream_id, message_json). current_pos < stream_id \<and> stream_id \<le> current_pos)
          (device_inbox (db self)) = []"
    by (auto simp: filter_empty_conv)
  then have "select_stream_ids (device_inbox (db self)) current_pos current_pos limit = []"
    by (simp add: select_stream_ids_def)
  then show ?thesis using True by (simp add: get_all_new_device_messages_def)
next
  case False
  then show ?thesis
    by (simp add: get_all_new_device_messages_def runInteraction_def
        get_all_new_device_messages_txn_def Let_def)
qed

lemma get_all_new_device_messages_range:
  assumes "get_all_new_device_messages None self last_pos current_pos limit = Inr rows"
    and "row \<in> set rows"
  shows "last_pos < fst row \<and> fst row \<le> current_pos"
proof -
  let ?ids = "select_stream_ids (device_inbox (db self)) last_pos current_pos limit"
  from assms have ne: "?ids \<noteq> []"
    by (auto simp: get_all_new_device_messages_eq split: if_splits)
  with assms(1) have rows: "rows = select_device_inbox_up_to (device_inbox (db self)) last_pos (last ?ids)"
    by (simp add: get_all_new_device_messages_eq)
  have "last ?ids \<in> set ?ids" using ne by simp
  then have "last ?ids \<le> current_pos"
    using select_stream_ids_props(4) by blast
  then show ?thesis
    using assms(2) unfolding rows select_device_inbox_up_to_set by auto
qed

text \<open>
  Claim C5. The rows that \<open>get_all_new_device_messages\<close> returns (when the storage
  engine does not fail) never split a stream position. Their positions are exactly the
  positions selected by the first query: at most \<open>limit\<close> distinct positions, all in
  \<open>(last_pos, current_pos]\<close>. Every stored row at one of these positions is returned,
  whatever their number; the rows returned are all the stored rows with position in
  \<open>(last_pos, frontier]\<close>, in ascending order, where \<open>frontier\<close> is the position of the
  last row returned; and a read that resumes from the frontier returns no row at a
  position of this page.
\<close>

theorem replication_read_whole_positions:
  "get_all_new_device_messages None self last_pos current_pos limit = Inr rows \<Longrightarrow>
     fst ` set rows = set (select_stream_ids (device_inbox (db self)) last_pos current_pos limit) \<and>
     card (fst ` set rows) \<le> limit \<and>
     (\<forall>row \<in> set rows. last_pos < fst row \<and> fst row \<le> current_pos) \<and>
     (\<forall>(u, d, s, m) \<in> set (device_inbox (db self)).
        s \<in> fst ` set rows \<longrightarrow> (s, u, d, m) \<in> set rows) \<and>
     (rows \<noteq> [] \<longrightarrow>
        rows = select_device_inbox_up_to (device_inbox (db self)) last_pos (fst (last rows))) \<and>
     (\<forall>rows'. rows \<noteq> [] \<and>
        get_all_new_device_messages None self (fst (last rows)) current_pos limit' = Inr rows'
        \<longrightarrow> fst ` set rows \<inter> fst ` set rows' = {})"
proof -
  assume run: "get_all_new_device_messages None self last_pos current_pos limit = Inr rows"
  let ?tbl = "device_inbox (db self)"
  let ?ids = "select_stream_ids ?tbl last_pos current_pos limit"
  have range: "\<forall>row \<in> set rows. last_pos < fst row \<and> fst row \<le> current_pos"
    using get_all_new_device_messages_range[OF run] by blast
  show ?thesis
  proof (cases "?ids = []")
    case True
    with run have "rows = []" by (simp add: get_all_new_device_messages_eq)
    with True show ?thesis by simp
  next
    case False
    with run have rows: "rows = select_device_inbox_up_to ?tbl last_pos (last ?ids)"
      by (simp add: get_all_new_device_messages_eq)
    have set_rows: "set rows = {(s, u, d, m). (u, d, s, m) \<in> set ?tbl \<and> last_pos < s \<and> s \<le> last ?ids}"
      unfolding rows by (rule select_device_inbox_up_to_set)
    have positions: "fst ` set rows = set ?ids"
    proof (rule set_eqI, rule iffI)
      fix s assume "s \<in> fst ` set rows"
      then obtain u d m where "(u, d, s, m) \<in> set ?tbl" "last_pos < s" "s \<le> last ?ids"
        unfolding set_rows by auto
      then show "s \<in> set ?ids"
        using False by (intro select_stream_ids_closed)
    next
      fix s assume sin: "s \<in> set ?ids"
      then obtain u d m where "(u, d, s, m) \<in> set ?tbl" "last_pos < s"
        using select_stream_ids_props(4) by blast
      moreover have "s \<le> last ?ids"
        using sin select_stream_ids_props(1) by (intro sorted_le_last)
      ultimately have "(s, u, d, m) \<in> set rows"
        unfolding set_rows by simp
      then show "s \<in> fst ` set rows" by force
    qed
    have card: "card (fst ` set rows) \<le> limit"
      unfolding positions
      using select_stream_ids_props(2,3)[of ?tbl last_pos current_pos limit]
      by (simp add: distinct_card)
    have whole: "\<forall>(u, d, s, m) \<in> set ?tbl. s \<in> fst ` set rows \<longrightarrow> (s, u, d, m) \<in> set rows"
      unfolding set_rows by auto
    have "last ?ids \<in> fst ` set rows"
      unfolding positions using False by simp
    then have nonempty: "rows \<noteq> []" by auto
    have "fst (last rows) \<le> last ?ids"
      using nonempty last_in_set[OF nonempty] unfolding set_rows by auto
    moreover have "last ?ids \<le> fst (last rows)"
    proof -
      have "sorted (map fst rows)"
        unfolding rows by (rule select_device_inbox_up_to_sorted)
      moreover have "last ?ids \<in> set (map fst rows)"
        using \<open>last ?ids \<in> fst ` set rows\<close> by simp
      ultimately have "last ?ids \<le> last (map fst rows)"
        by (intro sorted_le_last)
      then show ?thesis using nonempty by (simp add: last_map)
    qed
    ultimately have frontier: "fst (last rows) = last ?ids" by simp
    have resume: "fst ` set rows \<inter> fst ` set rows' = {}"
      if "get_all_new_device_messages None self (fst (last rows)) current_pos limit' = Inr rows'"
      for rows'
    proof -
      have "\<forall>row \<in> set rows'. last ?ids < fst row"
        using get_all_new_device_messages_range[OF that] frontier by simp
      moreover have "\<forall>row \<in> set rows. fst row \<le> last ?ids"
        unfolding set_rows by auto
      ultimately show ?thesis by fastforce
    qed
    show ?thesis
      using positions card range whole resume frontier rows by simp
  qed
qed

theorem replication_read_whole_positions_witness:
  "get_all_new_device_messages None store2 0 2 1
     = Inr [(1, ''alice'', ''dev1'', ''a''), (1, ''bob'', ''dev2'', ''b'')]
   \<and> (1::nat) < length [(1::int, ''alice'', ''dev1'', ''a''), (1, ''bob'', ''dev2'', ''b'')]
   \<and> get_all_new_device_messages None store2 1 2 1 = Inr [(2, ''alice'', ''dev1'', ''c'')]"
proof -
  have run: "get_all_new_device_messages None store2 0 2 1
     = Inr [(1, ''alice'', ''dev1'', ''a''), (1, ''bob'', ''dev2'', ''b'')]"
    by (simp add: get_all_new_device_messages_eq select_stream_ids_def
        select_device_inbox_up_to_def store2_def)
  have next_page: "get_all_new_device_messages None store2 1 2 1 = Inr [(2, ''alice'', ''dev1'', ''c'')]"
    by (simp add: get_all_new_device_messages_eq select_stream_ids_def
        select_device_inbox_up_to_def store2_def)
  have more_rows: "(1::nat) < length [(1::int, ''alice'', ''dev1'', ''a''), (1, ''bob'', ''dev2'', ''b'')]"
    by simp
  have "card (fst ` set [(1::int, ''alice'', ''dev1'', ''a''), (1, ''bob'', ''dev2'', ''b'')]) \<le> (1::nat)"
    using replication_read_whole_positions[OF run, where limit' = 1] by blast
  then show ?thesis
    using run next_page more_rows by blast
qed

section \<open>Paging through a device's inbox\<close>

lemma stored_rows_device_rows:
  "stored_rows tbl user_id device_id lo hi =
     filter (\<lambda>(s, m). lo < s \<and> s \<le> hi) (device_rows tbl user_id device_id)"
proof -
  have f1: "filter (\<lambda>(u, d, stream_id, message_json).
            u = user_id \<and> d = device_id \<and> lo < stream_id \<and> stream_id \<le> hi) tbl
        = filter (\<lambda>(u, d, stream_id, message_json). lo < stream_id \<and> stream_id \<le> hi)
            (filter (\<lambda>(u, d, stream_id, message_json). u = user_id \<and> d = device_id) tbl)"
    by (induction tbl) auto
  have f2: "map (\<lambda>(u, d, stream_id, message_json). (stream_id, message_json))
          (filter (\<lambda>(u, d, stream_id, message_json). lo < stream_id \<and> stream_id \<le> hi) xs)
        = filter (\<lambda>(s, m). lo < s \<and> s \<le> hi)
            (map (\<lambda>(u, d, stream_id, message_json). (stream_id, message_json)) xs)"
    for xs :: "device_inbox_row list"
    by (induction xs) auto
  show ?thesis
    unfolding stored_rows_def device_rows_def
    by (simp only: f1 f2 filter_sort)
qed

lemma select_device_inbox_stored_rows:
  "select_device_inbox tbl user_id device_id last_stream_id current_stream_id limit =
     take limit (stored_rows tbl user_id device_id last_stream_id current_stream_id)"
  by (simp add: select_device_inbox_def stored_rows_def)

lemma device_rows_sorted: "sorted (map fst (device_rows tbl user_id device_id))"
  by (simp add: device_rows_def)

lemma distinct_map_sort_key:
  "distinct (map f (sort_key f xs)) = distinct (map f xs)"
  by (induction xs) (auto simp: distinct_insort_key)

lemma device_rows_distinct:
  assumes "distinct (device_positions tbl user_id device_id)"
  shows "distinct (map fst (device_rows tbl user_id device_id))"
proof -
  let ?ys = "map (\<lambda>(u, d, stream_id, message_json). (stream_id, message_json))
         (filter (\<lambda>(u, d, stream_id, message_json). u = user_id \<and> d = device_id) tbl)"
  have pos: "map fst ?ys = device_positions tbl user_id device_id"
    unfolding device_positions_def by (induction tbl) auto
  show ?thesis
    unfolding device_rows_def distinct_map_sort_key pos by (rule assms)
qed

lemma filter_range_split:
  fixes zs :: "(int \<times> 'a) list"
  assumes "sorted (map fst zs)" "lo \<le> mid" "mid \<le> hi"
  shows "filter (\<lambda>(s, m). lo < s \<and> s \<le> mid) zs @ filter (\<lambda>(s, m). mid < s \<and> s \<le> hi) zs
       = filter (\<lambda>(s, m). lo < s \<and> s \<le> hi) zs"
  using assms(1)
proof (induction zs)
  case Nil
  then show ?case by simp
next
  case (Cons z zs)
  obtain s m where z: "z = (s, m)" by (cases z)
  from Cons.prems have sorted: "sorted (map fst zs)" and above: "\<forall>y \<in> set zs. s \<le> fst y"
    unfolding z by auto
  note IH = Cons.IH[OF sorted]
  show ?case
  proof (cases "mid < s")
    case True
    then have "filter (\<lambda>(s, m). lo < s \<and> s \<le> mid) zs = []"
      using above by (auto simp: filter_empty_conv)
    with IH True assms(2) show ?thesis unfolding z by auto
  next
    case False
    with IH assms(3) show ?thesis unfolding z by auto
  qed
qed

lemma stored_rows_split:
  assumes "lo \<le> mid" "mid \<le> hi"
  shows "stored_rows tbl user_id device_id lo mid @ stored_rows tbl user_id device_id mid hi
       = stored_rows tbl user_id device_id lo hi"
  unfolding stored_rows_device_rows
  using device_rows_sorted assms by (rule filter_range_split)

lemma filter_upto_last_take:
  fixes zs :: "(int \<times> 'a) list"
  assumes "sorted (map fst zs)" "distinct (map fst zs)" "0 < n" "n \<le> length zs"
  shows "filter (\<lambda>(s, m). s \<le> fst (last (take n zs))) zs = take n zs"
  using assms
proof (induction zs arbitrary: n)
  case Nil
  then show ?case by simp
next
  case (Cons z zs)
  obtain k where n: "n = Suc k" using Cons.prems(3) by (cases n) auto
  from Cons.prems(1) have sorted: "sorted (map fst zs)" and le: "\<forall>y \<in> set zs. fst z \<le> fst y"
    by auto
  from Cons.prems(2) have dist: "distinct (map fst zs)" and ne: "\<forall>y \<in> set zs. fst z \<noteq> fst y"
    by auto
  from le ne have above: "\<forall>y \<in> set zs. fst z < fst y"
    by (meson le_neq_trans)
  show ?case
  proof (cases "k = 0")
    case True
    have "filter (\<lambda>a. fst a \<le> fst z) zs = []"
      using above by (auto simp: filter_empty_conv)
    then show ?thesis using True n by (simp add: case_prod_beta)
  next
    case False
    then have k: "0 < k" "k \<le> length zs" using Cons.prems(4) n by auto
    then have nonempty: "take k zs \<noteq> []" by auto
    have "last (take k zs) \<in> set zs"
      using nonempty by (meson in_set_takeD last_in_set)
    then have "fst z \<le> fst (last (take k zs))"
      using above by auto
    then show ?thesis
      using Cons.IH[OF sorted dist k] n nonempty by (simp add: case_prod_beta)
  qed
qed

lemma stored_rows_unchanged:
  assumes "cache_covers self"
    and "\<not> has_entity_changed (device_inbox_stream_cache self) user_id last_stream_id"
  shows "stored_rows (device_inbox (db self)) user_id device_id last_stream_id current_stream_id = []"
proof -
  have "filter (\<lambda>(u, d, stream_id, message_json).
            u = user_id \<and> d = device_id \<and> last_stream_id < stream_id \<and> stream_id \<le> current_stream_id)
          (device_inbox (db self)) = []"
    using assms
    by (fastforce simp: filter_empty_conv cache_covers_def list_all_iff has_entity_changed_def
        split: option.splits)
  then show ?thesis by (simp add: stored_rows_def)
qed

lemma stored_rows_empty_range: "stored_rows tbl user_id device_id lo lo = []"
  by (simp add: stored_rows_device_rows filter_empty_conv case_prod_beta)

lemma stored_rows_bounds:
  "row \<in> set (stored_rows tbl user_id device_id lo hi) \<Longrightarrow> lo < fst row \<and> fst row \<le> hi"
  by (auto simp: stored_rows_device_rows)

text \<open>One read of the device's cursor, in terms of the stored rows.\<close>

lemma device_read_step:
  assumes cover: "cache_covers self"
    and dist: "distinct (device_positions (device_inbox (db self)) user_id device_id)"
    and limit: "0 < limit"
  shows "\<exists>p. get_new_messages_for_device loads None self user_id device_id last_stream_id
                 current_stream_id limit
             = Inr (map (\<lambda>row. loads (snd row))
                      (stored_rows (device_inbox (db self)) user_id device_id last_stream_id p), p)
           \<and> (p = current_stream_id
              \<or> (last_stream_id < p \<and> p \<le> current_stream_id
                  \<and> length (stored_rows (device_inbox (db self)) user_id device_id p current_stream_id)
                      + limit
                    = length (stored_rows (device_inbox (db self)) user_id device_id
                               last_stream_id current_stream_id)))"
proof -
  let ?tbl = "device_inbox (db self)"
  let ?R = "stored_rows ?tbl user_id device_id last_stream_id current_stream_id"
  let ?read = "get_new_messages_for_device loads None self user_id device_id last_stream_id
                 current_stream_id limit"
  show ?thesis
  proof (cases "has_entity_changed (device_inbox_stream_cache self) user_id last_stream_id")
    case False
    then have "?R = []" using cover by (intro stored_rows_unchanged)
    moreover have "?read = Inr ([], current_stream_id)"
      using False by (simp add: get_new_messages_for_device_eq)
    ultimately show ?thesis by auto
  next
    case True
    show ?thesis
    proof (cases "length ?R < limit")
      case short: True
      then have "?read = Inr (map (\<lambda>row. loads (snd row)) ?R, current_stream_id)"
        using True
        by (simp add: get_new_messages_for_device_eq cursor_result_eq
            select_device_inbox_stored_rows)
      then show ?thesis by auto
    next
      case full: False
      let ?page = "take limit ?R"
      define p where "p = fst (last ?page)"
      have len: "length ?page = limit" using full by simp
      then have ne: "?page \<noteq> []" using limit by auto
      have read: "?read = Inr (map (\<lambda>row. loads (snd row)) ?page, p)"
        using True len ne unfolding p_def
        by (simp add: get_new_messages_for_device_eq cursor_result_eq
            select_device_inbox_stored_rows del: length_take)
      have "last ?page \<in> set ?R"
        using ne by (meson in_set_takeD last_in_set)
      then have bounds: "last_stream_id < p" "p \<le> current_stream_id"
        unfolding p_def using stored_rows_bounds by blast+
      have sortedR: "sorted (map fst ?R)" and distR: "distinct (map fst ?R)"
        unfolding stored_rows_device_rows
        using device_rows_sorted[of ?tbl user_id device_id] device_rows_distinct[OF dist]
        by (simp_all add: sorted_filter distinct_map_filter)
      have "filter (\<lambda>(s, m). s \<le> p) ?R = ?page"
        unfolding p_def using sortedR distR limit full by (intro filter_upto_last_take) simp_all
      moreover have "filter (\<lambda>(s, m). s \<le> p) ?R
          = stored_rows ?tbl user_id device_id last_stream_id p"
        unfolding stored_rows_device_rows using bounds(2)
        by (auto intro!: filter_cong)
      ultimately have page: "stored_rows ?tbl user_id device_id last_stream_id p = ?page"
        by simp
      have "stored_rows ?tbl user_id device_id last_stream_id p
              @ stored_rows ?tbl user_id device_id p current_stream_id = ?R"
        using bounds by (intro stored_rows_split) simp_all
      then have "length (stored_rows ?tbl user_id device_id last_stream_id p)
              + length (stored_rows ?tbl user_id device_id p current_stream_id) = length ?R"
        by (metis length_append)
      then have rest: "length (stored_rows ?tbl user_id device_id p current_stream_id) + limit
          = length ?R"
        unfolding page len by simp
      show ?thesis
        using read bounds rest unfolding page[symmetric] by blast
    qed
  qed
qed

text \<open>
  A sequence of \<open>n\<close> reads that starts at or before \<open>current_stream_id\<close>: it
  returns the payloads stored between the start and the position it ends at, and
  either it has reached \<open>current_stream_id\<close> or every read was a full page.
\<close>

lemma read_pages_prefix:
  assumes cover: "cache_covers self"
    and dist: "distinct (device_positions (device_inbox (db self)) user_id device_id)"
    and limit: "0 < limit"
    and start: "last_stream_id \<le> current_stream_id"
  shows "\<exists>q. read_pages n
               (\<lambda>last. get_new_messages_for_device loads None self user_id device_id last
                          current_stream_id limit) last_stream_id
             = Inr (stored_payloads loads (device_inbox (db self)) user_id device_id last_stream_id q, q)
           \<and> last_stream_id \<le> q \<and> q \<le> current_stream_id
           \<and> (q = current_stream_id
              \<or> length (stored_rows (device_inbox (db self)) user_id device_id q current_stream_id)
                  + n * limit
                \<le> length (stored_rows (device_inbox (db self)) user_id device_id
                            last_stream_id current_stream_id))"
  using start
proof (induction n arbitrary: last_stream_id)
  case 0
  then show ?case
    by (simp add: stored_payloads_def stored_rows_empty_range)
next
  case (Suc n)
  let ?tbl = "device_inbox (db self)"
  let ?read = "\<lambda>last. get_new_messages_for_device loads None self user_id device_id last
                          current_stream_id limit"
  let ?len = "\<lambda>lo. length (stored_rows ?tbl user_id device_id lo current_stream_id)"
  obtain p where first: "?read last_stream_id
        = Inr (map (\<lambda>row. loads (snd row)) (stored_rows ?tbl user_id device_id last_stream_id p), p)"
    and p: "p = current_stream_id
            \<or> (last_stream_id < p \<and> p \<le> current_stream_id
                \<and> ?len p + limit = ?len last_stream_id)"
    using device_read_step[OF cover dist limit, of loads last_stream_id current_stream_id]
    by blast
  have p_bounds: "last_stream_id \<le> p" "p \<le> current_stream_id"
    using p Suc.prems by auto
  obtain q where rest: "read_pages n ?read p
        = Inr (stored_payloads loads ?tbl user_id device_id p q, q)"
    and q_bounds: "p \<le> q" "q \<le> current_stream_id"
    and q: "q = current_stream_id \<or> ?len q + n * limit \<le> ?len p"
    using Suc.IH[OF p_bounds(2)] by blast
  have "stored_rows ?tbl user_id device_id last_stream_id p @ stored_rows ?tbl user_id device_id p q
        = stored_rows ?tbl user_id device_id last_stream_id q"
    using p_bounds(1) q_bounds(1) by (rule stored_rows_split)
  then have payloads: "map (\<lambda>row. loads (snd row)) (stored_rows ?tbl user_id device_id last_stream_id p)
          @ stored_payloads loads ?tbl user_id device_id p q
        = stored_payloads loads ?tbl user_id device_id last_stream_id q"
    unfolding stored_payloads_def by (metis map_append)
  have run: "read_pages (Suc n) ?read last_stream_id
        = Inr (stored_payloads loads ?tbl user_id device_id last_stream_id q, q)"
    by (simp add: first rest payloads)
  have measure: "q = current_stream_id \<or> ?len q + Suc n * limit \<le> ?len last_stream_id"
  proof (cases "q = current_stream_id")
    case True
    then show ?thesis by simp
  next
    case False
    with q have step: "?len q + n * limit \<le> ?len p" by simp
    from False q_bounds have "p \<noteq> current_stream_id" by auto
    with p have "?len p + limit = ?len last_stream_id" by simp
    with step show ?thesis by simp
  qed
  show ?case
    using run p_bounds q_bounds measure by (intro exI[of _ q]) auto
qed

text \<open>
  Claim C6. Reads of one device's cursor, each resumed from the position that the read
  before returned, with \<open>limit\<close> at least 1 and no failure of the storage engine, on
  a store whose change cache covers every stored row and in which the device's rows
  have distinct positions. After any number \<open>n\<close> of reads from a start at or before
  \<open>current_stream_id\<close>, the concatenation of the pages is the list of the payloads
  stored for the device between the start and the position reached, in ascending order
  of position, each stored row once. Once \<open>n\<close> reads suffice for the stored rows
  (\<open>n * limit\<close> exceeds their number), the position reached is \<open>current_stream_id\<close>
  and the concatenation is the list of all payloads stored for the device in
  \<open>(initial_last, current_stream_id]\<close>.
\<close>

theorem cursor_pages_cover_range:
  assumes "cache_covers self"
    and "distinct (device_positions (device_inbox (db self)) user_id device_id)"
    and "0 < limit"
  shows
    "(initial_last \<le> current_stream_id \<longrightarrow>
        (\<exists>q. read_pages n
                (\<lambda>last. get_new_messages_for_device loads None self user_id device_id last
                           current_stream_id limit) initial_last
              = Inr (stored_payloads loads (device_inbox (db self)) user_id device_id initial_last q, q)
            \<and> initial_last \<le> q \<and> q \<le> current_stream_id))
     \<and>
     (length (stored_rows (device_inbox (db self)) user_id device_id initial_last current_stream_id)
        < n * limit \<longrightarrow>
        read_pages n
          (\<lambda>last. get_new_messages_for_device loads None self user_id device_id last
                     current_stream_id limit) initial_last
        = Inr (stored_payloads loads (device_inbox (db self)) user_id device_id
                 initial_last current_stream_id, current_stream_id))"
proof (intro conjI impI)
  let ?tbl = "device_inbox (db self)"
  let ?read = "\<lambda>last. get_new_messages_for_device loads None self user_id device_id last
                          current_stream_id limit"
  note prefix = read_pages_prefix[OF assms, of _ current_stream_id _ loads]
  show "\<exists>q. read_pages n ?read initial_last
              = Inr (stored_payloads loads ?tbl user_id device_id initial_last q, q)
            \<and> initial_last \<le> q \<and> q \<le> current_stream_id"
    if "initial_last \<le> current_stream_id"
    using prefix[OF that, of n] by blast
  show "read_pages n ?read initial_last
        = Inr (stored_payloads loads ?tbl user_id device_id initial_last current_stream_id,
               current_stream_id)"
    if enough: "length (stored_rows ?tbl user_id device_id initial_last current_stream_id) < n * limit"
  proof (cases "initial_last \<le> current_stream_id")
    case True
    from prefix[OF True, of n] enough show ?thesis
      by (metis add_leD2 leD)
  next
    case False
    from enough obtain k where n: "n = Suc k" by (cases n) auto
    have empty: "stored_rows ?tbl user_id device_id initial_last current_stream_id = []"
      using False by (auto simp: stored_rows_device_rows filter_empty_conv)
    obtain p where first: "?read initial_last
          = Inr (map (\<lambda>row. loads (snd row)) (stored_rows ?tbl user_id device_id initial_last p), p)"
      and p: "p = current_stream_id \<or> (initial_last < p \<and> p \<le> current_stream_id)"
      using device_read_step[OF assms, of loads initial_last current_stream_id] by blast
    from p False have p_eq: "p = current_stream_id" by auto
    obtain q where rest: "read_pages k ?read current_stream_id
          = Inr (stored_payloads loads ?tbl user_id device_id current_stream_id q, q)"
      and "current_stream_id \<le> q" "q \<le> current_stream_id"
      using prefix[OF order_refl, of k] by blast
    then have q_eq: "q = current_stream_id" by simp
    show ?thesis
      unfolding n
      by (simp add: first p_eq rest[unfolded q_eq] empty stored_payloads_def stored_rows_empty_range)
  qed
qed

theorem cursor_pages_cover_range_witness:
  "cache_covers store0
   \<and> distinct (device_positions (device_inbox (db store0)) ''alice'' ''dev1'')
   \<and> get_new_messages_for_device id None store0 ''alice'' ''dev1'' 0 7 2 = Inr ([''a'', ''b''], 2)
   \<and> get_new_messages_for_device id None store0 ''alice'' ''dev1'' 2 7 2 = Inr ([''c''], 7)
   \<and> read_pages 2 (\<lambda>last. get_new_messages_for_device id None store0 ''alice'' ''dev1'' last 7 2) 0
       = Inr ([''a'', ''b'', ''c''], 7)
   \<and> stored_payloads id (device_inbox (db store0)) ''alice'' ''dev1'' 0 7 = [''a'', ''b'', ''c'']"
proof -
  have cover: "cache_covers store0"
    by (simp add: cache_covers_def store0_def)
  have dist: "distinct (device_positions (device_inbox (db store0)) ''alice'' ''dev1'')"
    by (simp add: device_positions_def store0_def)
  have rows: "stored_rows (device_inbox (db store0)) ''alice'' ''dev1'' 0 7
      = [(1, ''a''), (2, ''b''), (5, ''c'')]"
    by (simp add: stored_rows_def store0_def)
  have pages: "get_new_messages_for_device id None store0 ''alice'' ''dev1'' 0 7 2 = Inr ([''a'', ''b''], 2)"
    "get_new_messages_for_device id None store0 ''alice'' ''dev1'' 2 7 2 = Inr ([''c''], 7)"
    by (simp_all add: get_new_messages_for_device_eq cursor_result_eq select_device_inbox_def
        has_entity_changed_def store0_def)
  have "read_pages 2 (\<lambda>last. get_new_messages_for_device id None store0 ''alice'' ''dev1'' last 7 2) 0
       = Inr (stored_payloads id (device_inbox (db store0)) ''alice'' ''dev1'' 0 7, 7)"
    using cursor_pages_cover_range[OF cover dist, where limit = 2 and n = 2 and initial_last = 0
        and current_stream_id = 7 and loads = id]
    by (simp add: rows)
  then show ?thesis
    using cover dist pages by (simp add: stored_payloads_def rows)
qed

section \<open>The writes keep the invariants\<close>

lemma store_invariant_device_positions:
  assumes "store_invariant self"
  shows "distinct (device_positions (device_inbox (db self)) user_id device_id)"
proof -
  let ?tbl = "device_inbox (db self)"
  let ?dev = "filter (\<lambda>(u, d, stream_id, message_json). u = user_id \<and> d = device_id) ?tbl"
  have "distinct (map (\<lambda>(u, d, stream_id, message_json). (u, d, stream_id)) ?dev)"
    using assms unfolding store_invariant_def by (simp add: distinct_map_filter)
  moreover have "map (\<lambda>(u, d, stream_id, message_json). (u, d, stream_id)) ?dev
      = map (\<lambda>s. (user_id, device_id, s)) (device_positions ?tbl user_id device_id)"
    unfolding device_positions_def by (induction ?tbl) auto
  ultimately have "distinct (map (\<lambda>s. (user_id, device_id, s))
      (device_positions ?tbl user_id device_id))"
    by (simp only:)
  then show ?thesis
    by (simp add: distinct_map)
qed

lemma local_inbox_rows_user:
  "(u, d, s, m) \<in> set (local_inbox_rows dumps devs stream_id msgs) \<Longrightarrow> u \<in> set (keys msgs)"
  by (force simp: local_inbox_rows_def keys_def)

lemma local_inbox_rows_distinct:
  assumes "is_dict_of_dicts msgs"
  shows "distinct (map (\<lambda>(u, d, s, m). (u, d, s)) (local_inbox_rows dumps devs stream_id msgs))"
  using assms
proof (induction msgs)
  case Nil
  then show ?case by (simp add: local_inbox_rows_def)
next
  case (Cons a msgs)
  obtain user_id mbd where a: "a = (user_id, mbd)" by (cases a)
  let ?P = "\<lambda>(device_id, message). (user_id, device_id) \<in> set devs"
  let ?head = "map (\<lambda>(device_id, message). (user_id, device_id, stream_id, dumps message)) (filter ?P mbd)"
  have rows: "local_inbox_rows dumps devs stream_id (a # msgs)
      = ?head @ local_inbox_rows dumps devs stream_id msgs"
    unfolding a by (simp add: local_inbox_rows_def)
  from Cons.prems have dict: "is_dict mbd" and fresh: "user_id \<notin> set (keys msgs)"
    and rest: "is_dict_of_dicts msgs"
    unfolding a by (auto simp: is_dict_of_dicts_def is_dict_def keys_def)
  have "distinct (map fst (filter ?P mbd))"
    using dict by (simp add: is_dict_def keys_def distinct_map_filter)
  moreover have "map (\<lambda>(u, d, s, m). (u, d, s)) ?head
      = map (\<lambda>d. (user_id, d, stream_id)) (map fst (filter ?P mbd))"
    by (induction mbd) auto
  ultimately have head: "distinct (map (\<lambda>(u, d, s, m). (u, d, s)) ?head)"
    by (simp add: distinct_map inj_on_def del: map_map)
  have "\<And>u d s m. (u, d, s, m) \<in> set ?head \<Longrightarrow> u = user_id" by auto
  moreover have "\<And>u d s m. (u, d, s, m) \<in> set (local_inbox_rows dumps devs stream_id msgs)
      \<Longrightarrow> u \<noteq> user_id"
    using fresh local_inbox_rows_user by fastforce
  ultimately have disjoint: "set (map (\<lambda>(u, d, s, m). (u, d, s)) ?head)
      \<inter> set (map (\<lambda>(u, d, s, m). (u, d, s)) (local_inbox_rows dumps devs stream_id msgs)) = {}"
    by fastforce
  show ?case
    unfolding rows using head Cons.IH[OF rest] disjoint by simp
qed

lemma mark_all_covers:
  assumes "device_inbox_stream_cache self u = Some q" "s \<le> q"
  shows "\<exists>q'. mark_all (device_inbox_stream_cache self) entities stream_id u = Some q' \<and> s \<le> q'"
  using assms by (auto simp: mark_all_apply)

lemma mark_all_marks:
  assumes "u \<in> set entities"
  shows "\<exists>q'. mark_all cache entities stream_id u = Some q' \<and> stream_id \<le> q'"
  using assms by (auto simp: mark_all_apply split: option.splits)

lemma store_invariant_advance:
  assumes inv: "store_invariant self"
    and db: "db self' = db self"
    and gen: "device_inbox_id_gen self' = device_inbox_id_gen self + 1"
    and cache: "device_inbox_stream_cache self'
                  = mark_all (device_inbox_stream_cache self) entities stream_id"
  shows "store_invariant self'"
proof -
  from inv have cover: "cache_covers self"
    unfolding store_invariant_def by simp
  have "cache_covers self'"
    unfolding cache_covers_def list_all_iff db cache
  proof (intro ballI)
    fix row assume row: "row \<in> set (device_inbox (db self))"
    obtain u d s m where r: "row = (u, d, s, m)" by (cases row)
    from row obtain q where "device_inbox_stream_cache self u = Some q" "s \<le> q"
      using cover unfolding cache_covers_def list_all_iff r by (force split: option.splits)
    then show "case row of (u', d', s', m') \<Rightarrow>
            (case mark_all (device_inbox_stream_cache self) entities stream_id u' of
               None \<Rightarrow> False | Some latest \<Rightarrow> s' \<le> latest)"
      using mark_all_covers[of self u q s entities stream_id] unfolding r by auto
  qed
  moreover have "positions_issued self'"
    using inv unfolding store_invariant_def positions_issued_def list_all_iff db gen
    by fastforce
  ultimately show ?thesis
    using inv unfolding store_invariant_def db by simp
qed

lemma store_invariant_extend:
  assumes inv: "store_invariant self"
    and dict: "is_dict_of_dicts local"
    and inbox: "device_inbox (db self') = device_inbox (db self)
                  @ local_inbox_rows dumps devs (device_inbox_id_gen self + 1) local"
    and outbox: "device_federation_outbox (db self') = device_federation_outbox (db self)
                  @ federation_outbox_rows dumps (device_inbox_id_gen self + 1) now_ms remote"
    and gen: "device_inbox_id_gen self' = device_inbox_id_gen self + 1"
    and cache: "device_inbox_stream_cache self'
                  = mark_all (device_inbox_stream_cache self) (keys local) (device_inbox_id_gen self + 1)"
  shows "store_invariant self'"
proof -
  let ?sid = "device_inbox_id_gen self + 1"
  let ?new = "local_inbox_rows dumps devs ?sid local"
  let ?triple = "\<lambda>(u, d, stream_id, message_json). (u, d, stream_id)"
  from inv have cover: "cache_covers self" and issued: "positions_issued self"
    and dist: "distinct (map ?triple (device_inbox (db self)))"
    unfolding store_invariant_def by simp_all
  have old_pos: "s \<le> device_inbox_id_gen self" if "(u, d, s, m) \<in> set (device_inbox (db self))" for u d s m
    using issued that unfolding positions_issued_def list_all_iff stream_positions_def by force
  have old_out: "s \<le> device_inbox_id_gen self"
    if "(dest, s, ts, m) \<in> set (device_federation_outbox (db self))" for dest s ts m
    using issued that unfolding positions_issued_def list_all_iff stream_positions_def by force
  have new_pos: "s = ?sid" "u \<in> set (keys local)" if "(u, d, s, m) \<in> set ?new" for u d s m
    using that local_inbox_rows_set local_inbox_rows_user by fast+
  have "cache_covers self'"
    unfolding cache_covers_def list_all_iff inbox cache
  proof (intro ballI)
    fix row assume row: "row \<in> set (device_inbox (db self) @ ?new)"
    obtain u d s m where r: "row = (u, d, s, m)" by (cases row)
    show "case row of (u', d', s', m') \<Rightarrow>
            (case mark_all (device_inbox_stream_cache self) (keys local) ?sid u' of
               None \<Rightarrow> False | Some latest \<Rightarrow> s' \<le> latest)"
    proof (cases "row \<in> set ?new")
      case True
      then show ?thesis
        using new_pos mark_all_marks[of u "keys local" "device_inbox_stream_cache self" ?sid]
        unfolding r by fastforce
    next
      case False
      with row have "(u, d, s, m) \<in> set (device_inbox (db self))" unfolding r by simp
      then obtain q where "device_inbox_stream_cache self u = Some q" "s \<le> q"
        using cover unfolding cache_covers_def list_all_iff by (force split: option.splits)
      then show ?thesis
        using mark_all_covers[of self u q s "keys local" ?sid] unfolding r by auto
    qed
  qed
  moreover have "positions_issued self'"
    unfolding positions_issued_def list_all_iff stream_positions_def inbox outbox gen
    using old_pos old_out new_pos(1)
    by (fastforce simp: federation_outbox_rows_def)
  moreover have "distinct (map ?triple (device_inbox (db self')))"
  proof -
    have "set (map ?triple (device_inbox (db self))) \<inter> set (map ?triple ?new) = {}"
      using old_pos new_pos(1) by fastforce
    then show ?thesis
      unfolding inbox using dist local_inbox_rows_distinct[OF dict] by simp
  qed
  ultimately show ?thesis
    unfolding store_invariant_def by simp
qed

lemma empty_store_invariant: "store_invariant empty_store"
  by (simp add: store_invariant_def cache_covers_def positions_issued_def stream_positions_def
      empty_store_def)

text \<open>
  Both writes keep the invariant, whether or not the transaction fails, when their
  arguments are dicts.
\<close>

lemma enqueue_keeps_invariant:
  assumes "store_invariant self" "is_dict_of_dicts local"
  shows "store_invariant (snd (add_messages_to_device_inbox dumps fault now_ms self local remote))"
proof (cases fault)
  case None
  show ?thesis
    unfolding add_messages_to_device_inbox_eq Let_def None
    by (rule store_invariant_extend[OF assms, where dumps = dumps and devs = "devices (db self)"
          and now_ms = now_ms and remote = remote]) simp_all
next
  case (Some e)
  show ?thesis
    unfolding add_messages_to_device_inbox_eq Let_def Some
    by (rule store_invariant_advance[OF assms(1), where entities = "[]" and stream_id = 0])
      (simp_all add: mark_all_def)
qed

lemma remote_ingest_keeps_invariant:
  assumes "store_invariant self" "is_dict_of_dicts local"
  shows "store_invariant
           (snd (add_messages_from_remote_to_device_inbox dumps fault now_ms self origin message_id local))"
proof (cases fault)
  case (Some e)
  show ?thesis
    unfolding add_messages_from_remote_to_device_inbox_eq Let_def Some
    by (rule store_invariant_advance[OF assms(1), where entities = "[]" and stream_id = 0])
      (simp_all add: mark_all_def)
next
  case None
  show ?thesis
  proof (cases "simple_select_one_txn (db self) origin message_id \<noteq> None")
    case True
    show ?thesis
      unfolding add_messages_from_remote_to_device_inbox_eq Let_def None
      by (rule store_invariant_advance[OF assms(1), where entities = "keys local"
            and stream_id = "device_inbox_id_gen self + 1"])
        (use True in simp_all)
  next
    case False
    show ?thesis
      unfolding add_messages_from_remote_to_device_inbox_eq Let_def None
      by (rule store_invariant_extend[OF assms, where dumps = dumps and devs = "devices (db self)"
            and now_ms = now_ms and remote = "[]"])
        (use False in \<open>simp_all add: federation_outbox_rows_def\<close>)
  qed
qed

text \<open>Trimming keeps the invariant as well: it only removes rows.\<close>

lemma positions_issued_iff:
  "positions_issued self \<longleftrightarrow>
     (\<forall>(u, d, s, m) \<in> set (device_inbox (db self)). s \<le> device_inbox_id_gen self) \<and>
     (\<forall>(dest, s, ts, m) \<in> set (device_federation_outbox (db self)). s \<le> device_inbox_id_gen self)"
proof
  assume "positions_issued self"
  then show "(\<forall>(u, d, s, m) \<in> set (device_inbox (db self)). s \<le> device_inbox_id_gen self) \<and>
     (\<forall>(dest, s, ts, m) \<in> set (device_federation_outbox (db self)). s \<le> device_inbox_id_gen self)"
    unfolding positions_issued_def stream_positions_def list_all_iff by force
next
  assume "(\<forall>(u, d, s, m) \<in> set (device_inbox (db self)). s \<le> device_inbox_id_gen self) \<and>
     (\<forall>(dest, s, ts, m) \<in> set (device_federation_outbox (db self)). s \<le> device_inbox_id_gen self)"
  then show "positions_issued self"
    unfolding positions_issued_def stream_positions_def list_all_iff by fastforce
qed

lemma store_invariant_trim:
  assumes inv: "store_invariant self"
    and inbox: "device_inbox (db self') = filter P (device_inbox (db self))"
    and outbox: "device_federation_outbox (db self') = filter Q (device_federation_outbox (db self))"
    and gen: "device_inbox_id_gen self' = device_inbox_id_gen self"
    and cache: "device_inbox_stream_cache self' = device_inbox_stream_cache self"
  shows "store_invariant self'"
proof -
  from inv have "cache_covers self'"
    unfolding store_invariant_def cache_covers_def list_all_iff inbox cache by simp
  moreover from inv have "positions_issued self'"
    unfolding store_invariant_def positions_issued_iff inbox outbox gen by simp
  moreover from inv have "distinct (map (\<lambda>(u, d, stream_id, message_json). (u, d, stream_id))
      (device_inbox (db self')))"
    unfolding store_invariant_def inbox by (simp add: distinct_map_filter)
  ultimately show ?thesis
    unfolding store_invariant_def by simp
qed

lemma delete_messages_for_device_keeps_invariant:
  assumes "store_invariant self"
  shows "store_invariant (snd (delete_messages_for_device fault self user_id device_id up_to_stream_id))"
proof (cases fault)
  case None
  show ?thesis
    by (rule store_invariant_trim[OF assms,
          where P = "\<lambda>(u, d, stream_id, message_json).
                       \<not> (u = user_id \<and> d = device_id \<and> stream_id \<le> up_to_stream_id)"
            and Q = "\<lambda>row. True"])
      (simp_all add: None delete_messages_for_device_def runInteraction_def
        delete_messages_for_device_txn_def)
next
  case (Some e)
  then show ?thesis
    using assms
    by (simp add: delete_messages_for_device_def runInteraction_def
        delete_messages_for_device_txn_def)
qed

lemma delete_device_msgs_for_remote_keeps_invariant:
  assumes "store_invariant self"
  shows "store_invariant (snd (delete_device_msgs_for_remote fault self destination up_to_stream_id))"
proof (cases fault)
  case None
  show ?thesis
    by (rule store_invariant_trim[OF assms,
          where Q = "\<lambda>(dest, stream_id, queued_ts, messages_json).
                       \<not> (dest = destination \<and> stream_id \<le> up_to_stream_id)"
            and P = "\<lambda>row. True"])
      (simp_all add: None delete_device_msgs_for_remote_def runInteraction_def
        delete_messages_for_remote_destination_txn_def)
next
  case (Some e)
  then show ?thesis
    using assms
    by (simp add: delete_device_msgs_for_remote_def runInteraction_def
        delete_messages_for_remote_destination_txn_def)
qed

end
